theory Spec2Isabelle
  imports Complex_Main "HOL-Library.Monad_Syntax"
begin

section \<open>Trilinear interpolation kernels (interpolation\_kernel.cu)\<close>

text \<open>
  The two CUDA kernels \<^verbatim>\<open>trilinear_forward_kernel\<close> and \<^verbatim>\<open>trilinear_backward_kernel\<close>
  and their host entry points \<^verbatim>\<open>trilinear_forward_cu\<close> and \<^verbatim>\<open>trilinear_backward_cu\<close>.

  \<^item> The template parameter \<^verbatim>\<open>scalar_t\<close> is taken to be the real numbers: the theorems are
    about the formulas over exact arithmetic, and say nothing about rounding.
  \<^item> A tensor is its list of sizes, its list of strides and the buffer its data pointer
    designates. An accessor reads and writes the buffer at
    \<^verbatim>\<open>i * strides[0] + j * strides[1] + ...\<close> with no bounds check; an access outside the
    buffer is undefined behaviour in the source and \<open>None\<close> here.
  \<^item> \<^verbatim>\<open>int\<close> and \<^verbatim>\<open>unsigned int\<close> are 32 bits wide, \<^verbatim>\<open>int64_t\<close> and \<^verbatim>\<open>size_t\<close> 64 bits; the
    conversions between them are written out.
  \<^item> A kernel launch runs the kernel body once for every thread of the grid. The threads
    are run one after the other here; the launch theorems below show that distinct threads
    write distinct elements, so that the order does not matter.
\<close>

subsection \<open>Scalars and machine integers\<close>

type_synonym scalar_t = real

text \<open>\<^verbatim>\<open>unsigned int\<close> arithmetic wraps modulo \<open>2^32\<close>.\<close>

definition uint32 :: "nat \<Rightarrow> nat" where
  "uint32 k = k mod 2 ^ 32"

text \<open>Conversion of an \<^verbatim>\<open>unsigned int\<close> value to \<^verbatim>\<open>int\<close> (two's complement).\<close>

definition int_of_uint32 :: "nat \<Rightarrow> int" where
  "int_of_uint32 k = (if k < 2 ^ 31 then int k else int k - 2 ^ 32)"

text \<open>Conversion of an \<^verbatim>\<open>int64_t\<close> value to \<^verbatim>\<open>int\<close>: the low 32 bits, read as signed.\<close>

definition int_of_int64 :: "int \<Rightarrow> int" where
  "int_of_int64 k = (k + 2 ^ 31) mod 2 ^ 32 - 2 ^ 31"

text \<open>Conversion of an \<^verbatim>\<open>int\<close> value to \<^verbatim>\<open>unsigned int\<close> and to \<^verbatim>\<open>size_t\<close>.\<close>

definition uint32_of_int :: "int \<Rightarrow> nat" where
  "uint32_of_int i = nat (i mod 2 ^ 32)"

definition size_t_of_int :: "int \<Rightarrow> nat" where
  "size_t_of_int i = nat (i mod 2 ^ 64)"

subsection \<open>Tensors and accessors\<close>

datatype error =
    IndexError          \<comment> \<open>\<^verbatim>\<open>size(d)\<close> on a tensor with no dimension \<open>d\<close>\<close>
  | NegativeDimension   \<comment> \<open>\<^verbatim>\<open>torch::empty\<close> with a negative size\<close>
  | AccessorRank        \<comment> \<open>\<^verbatim>\<open>packed_accessor<scalar_t, r>\<close> on a tensor that is not \<open>r\<close>-dimensional\<close>
  | OutOfBounds         \<comment> \<open>a launched thread accessed memory outside a buffer\<close>

record tensor =
  sizes :: "nat list"
  strides :: "nat list"
  elems :: "scalar_t list"

definition size_of :: "tensor \<Rightarrow> nat \<Rightarrow> error + nat" where
  "size_of t d = (if d < length (sizes t) then Inr (sizes t ! d) else Inl IndexError)"

text \<open>
  \<^verbatim>\<open>torch::empty\<close>: a fresh row-major tensor whose contents are not initialised. What the
  memory happens to hold is the parameter \<open>uninit\<close>. The stride of a dimension is the
  product of the sizes after it, where the library counts a size of 0 as 1.
\<close>

fun contiguous_strides :: "nat list \<Rightarrow> nat list" where
  "contiguous_strides [] = []"
| "contiguous_strides (s # ss) = prod_list (map (\<lambda>s. max s 1) ss) # contiguous_strides ss"

definition torch_empty :: "int list \<Rightarrow> (nat \<Rightarrow> scalar_t) \<Rightarrow> error + tensor" where
  "torch_empty shape uninit =
     (if \<exists>s \<in> set shape. s < 0 then Inl NegativeDimension
      else Inr \<lparr>sizes = map nat shape,
                strides = contiguous_strides (map nat shape),
                elems = map uninit [0 ..< prod_list (map nat shape)]\<rparr>)"

text \<open>
  \<^verbatim>\<open>packed_accessor<scalar_t, r, ...>()\<close>: the accessor shares sizes, strides and buffer with
  the tensor, and is refused when the tensor does not have \<open>r\<close> dimensions.
\<close>

definition packed_accessor :: "nat \<Rightarrow> tensor \<Rightarrow> error + tensor" where
  "packed_accessor r t = (if length (sizes t) = r then Inr t else Inl AccessorRank)"

definition offset2 :: "tensor \<Rightarrow> nat \<Rightarrow> nat \<Rightarrow> nat" where
  "offset2 t i j = i * (strides t ! 0) + j * (strides t ! 1)"

definition offset3 :: "tensor \<Rightarrow> nat \<Rightarrow> nat \<Rightarrow> nat \<Rightarrow> nat" where
  "offset3 t i j k = i * (strides t ! 0) + j * (strides t ! 1) + k * (strides t ! 2)"

definition load :: "tensor \<Rightarrow> nat \<Rightarrow> scalar_t option" where
  "load t k = (if k < length (elems t) then Some (elems t ! k) else None)"

definition store :: "tensor \<Rightarrow> nat \<Rightarrow> scalar_t \<Rightarrow> tensor option" where
  "store t k x = (if k < length (elems t) then Some (t\<lparr>elems := (elems t)[k := x]\<rparr>) else None)"

text \<open>\<^verbatim>\<open>t[i][j]\<close> and \<^verbatim>\<open>t[i][j][k]\<close> as a value, and as the target of an assignment.\<close>

definition read2 :: "tensor \<Rightarrow> nat \<Rightarrow> nat \<Rightarrow> scalar_t option" where
  "read2 t i j = load t (offset2 t i j)"

definition read3 :: "tensor \<Rightarrow> nat \<Rightarrow> nat \<Rightarrow> nat \<Rightarrow> scalar_t option" where
  "read3 t i j k = load t (offset3 t i j k)"

definition write2 :: "tensor \<Rightarrow> nat \<Rightarrow> nat \<Rightarrow> scalar_t \<Rightarrow> tensor option" where
  "write2 t i j x = store t (offset2 t i j) x"

definition write3 :: "tensor \<Rightarrow> nat \<Rightarrow> nat \<Rightarrow> nat \<Rightarrow> scalar_t \<Rightarrow> tensor option" where
  "write3 t i j k x = store t (offset3 t i j k) x"

subsection \<open>Launching a kernel\<close>

record dim3 =
  dim_x :: nat
  dim_y :: nat
  dim_z :: nat

text \<open>The three-dimensional indices below a \<^verbatim>\<open>dim3\<close> extent.\<close>

definition indices_below :: "dim3 \<Rightarrow> dim3 list" where
  "indices_below d =
     map (\<lambda>(k, j, i). \<lparr>dim_x = i, dim_y = j, dim_z = k\<rparr>)
       (List.product [0 ..< dim_z d] (List.product [0 ..< dim_y d] [0 ..< dim_x d]))"

text \<open>The threads of a launch \<^verbatim>\<open><<<numBlocks, numThreadsPerBlock>>>\<close>, as pairs
  \<open>(blockIdx, threadIdx)\<close>.\<close>

definition grid_threads :: "dim3 \<Rightarrow> dim3 \<Rightarrow> (dim3 \<times> dim3) list" where
  "grid_threads numBlocks numThreadsPerBlock =
     List.product (indices_below numBlocks) (indices_below numThreadsPerBlock)"

text \<open>Running the threads of a list one after the other on the output buffer; the run is
  undefined as soon as one thread is.\<close>

fun run_threads ::
  "(dim3 \<Rightarrow> dim3 \<Rightarrow> tensor \<Rightarrow> tensor option) \<Rightarrow> (dim3 \<times> dim3) list \<Rightarrow> tensor \<Rightarrow> tensor option"
where
  "run_threads body [] out = Some out"
| "run_threads body ((b, t) # ts) out =
     (case body b t out of None \<Rightarrow> None | Some out' \<Rightarrow> run_threads body ts out')"

definition launch ::
  "(dim3 \<Rightarrow> dim3 \<Rightarrow> dim3 \<Rightarrow> tensor \<Rightarrow> tensor option) \<Rightarrow> dim3 \<Rightarrow> dim3 \<Rightarrow> tensor \<Rightarrow> error + tensor"
where
  "launch body numBlocks numThreadsPerBlock out =
     (case run_threads (body numThreadsPerBlock) (grid_threads numBlocks numThreadsPerBlock) out of
        None \<Rightarrow> Inl OutOfBounds
      | Some out' \<Rightarrow> Inr out')"

subsection \<open>The forward kernel and its entry point\<close>

definition trilinear_forward_kernel ::
  "tensor \<Rightarrow> tensor \<Rightarrow> dim3 \<Rightarrow> dim3 \<Rightarrow> dim3 \<Rightarrow> tensor \<Rightarrow> tensor option"
where
  "trilinear_forward_kernel features points blockDim blockIdx threadIdx output =
     (let n = int_of_uint32 (uint32 (dim_x blockDim * dim_x blockIdx + dim_x threadIdx));
          f = int_of_uint32 (uint32 (dim_y blockDim * dim_y blockIdx + dim_y threadIdx))
      in
        if size_t_of_int n < sizes features ! 0 \<and> size_t_of_int f < sizes features ! 2 then
          do {
            p0 \<leftarrow> read2 points (size_t_of_int n) 0;
            p1 \<leftarrow> read2 points (size_t_of_int n) 1;
            p2 \<leftarrow> read2 points (size_t_of_int n) 2;
            let u = (p0 + 1) / 2;
            let v = (p1 + 1) / 2;
            let w = (p2 + 1) / 2;
            let a = (1 - v) * (1 - w);
            let b = (1 - v) * w;
            let c = v * (1 - w);
            let d = 1 - a - b - c;
            f0 \<leftarrow> read3 features (size_t_of_int n) 0 (size_t_of_int f);
            f1 \<leftarrow> read3 features (size_t_of_int n) 1 (size_t_of_int f);
            f2 \<leftarrow> read3 features (size_t_of_int n) 2 (size_t_of_int f);
            f3 \<leftarrow> read3 features (size_t_of_int n) 3 (size_t_of_int f);
            f4 \<leftarrow> read3 features (size_t_of_int n) 4 (size_t_of_int f);
            f5 \<leftarrow> read3 features (size_t_of_int n) 5 (size_t_of_int f);
            f6 \<leftarrow> read3 features (size_t_of_int n) 6 (size_t_of_int f);
            f7 \<leftarrow> read3 features (size_t_of_int n) 7 (size_t_of_int f);
            write2 output (size_t_of_int n) (size_t_of_int f)
              ((1 - u) * (a * f0 + b * f1 + c * f2 + d * f3) +
               u * (a * f4 + b * f5 + c * f6 + d * f7))
          }
        else Some output)"

text \<open>The launch configuration both entry points compute from \<open>N\<close> and \<open>F\<close>.\<close>

definition numThreadsPerBlock :: dim3 where
  "numThreadsPerBlock = \<lparr>dim_x = 16, dim_y = 16, dim_z = 1\<rparr>"

definition numBlocks :: "int \<Rightarrow> int \<Rightarrow> dim3" where
  "numBlocks N F =
     \<lparr>dim_x = uint32_of_int (N + int (dim_x numThreadsPerBlock) - 1) div dim_x numThreadsPerBlock,
      dim_y = uint32_of_int (F + int (dim_y numThreadsPerBlock) - 1) div dim_y numThreadsPerBlock,
      dim_z = 1\<rparr>"

definition trilinear_forward_cu :: "tensor \<Rightarrow> tensor \<Rightarrow> (nat \<Rightarrow> scalar_t) \<Rightarrow> error + tensor" where
  "trilinear_forward_cu features points uninit =
     (case size_of features 0 of Inl e \<Rightarrow> Inl e | Inr s0 \<Rightarrow>
     (case size_of features 2 of Inl e \<Rightarrow> Inl e | Inr s2 \<Rightarrow>
     (let N = int_of_int64 (int s0); F = int_of_int64 (int s2) in
     (case torch_empty [N, F] uninit of Inl e \<Rightarrow> Inl e | Inr featInterpOutput \<Rightarrow>
     (case packed_accessor 3 features of Inl e \<Rightarrow> Inl e | Inr features_acc \<Rightarrow>
     (case packed_accessor 2 points of Inl e \<Rightarrow> Inl e | Inr points_acc \<Rightarrow>
     (case packed_accessor 2 featInterpOutput of Inl e \<Rightarrow> Inl e | Inr output_acc \<Rightarrow>
        launch (trilinear_forward_kernel features_acc points_acc)
          (numBlocks N F) numThreadsPerBlock output_acc)))))))"

subsection \<open>The backward kernel and its entry point\<close>

definition trilinear_backward_kernel ::
  "tensor \<Rightarrow> tensor \<Rightarrow> tensor \<Rightarrow> dim3 \<Rightarrow> dim3 \<Rightarrow> dim3 \<Rightarrow> tensor \<Rightarrow> tensor option"
where
  "trilinear_backward_kernel features points dL_dfeatInterpOutput blockDim blockIdx threadIdx
       dL_dFeatures =
     (let n = int_of_uint32 (uint32 (dim_x blockDim * dim_x blockIdx + dim_x threadIdx));
          f = int_of_uint32 (uint32 (dim_y blockDim * dim_y blockIdx + dim_y threadIdx))
      in
        if size_t_of_int n < sizes features ! 0 \<and> size_t_of_int f < sizes features ! 2 then
          do {
            p0 \<leftarrow> read2 points (size_t_of_int n) 0;
            p1 \<leftarrow> read2 points (size_t_of_int n) 1;
            p2 \<leftarrow> read2 points (size_t_of_int n) 2;
            let u = (p0 + 1) / 2;
            let v = (p1 + 1) / 2;
            let w = (p2 + 1) / 2;
            let a = (1 - v) * (1 - w);
            let b = (1 - v) * w;
            let c = v * (1 - w);
            let d = 1 - a - b - c;
            g0 \<leftarrow> read2 dL_dfeatInterpOutput (size_t_of_int n) (size_t_of_int f);
            o0 \<leftarrow> write3 dL_dFeatures (size_t_of_int n) 0 (size_t_of_int f) ((1 - u) * a * g0);
            g1 \<leftarrow> read2 dL_dfeatInterpOutput (size_t_of_int n) (size_t_of_int f);
            o1 \<leftarrow> write3 o0 (size_t_of_int n) 1 (size_t_of_int f) ((1 - u) * b * g1);
            g2 \<leftarrow> read2 dL_dfeatInterpOutput (size_t_of_int n) (size_t_of_int f);
            o2 \<leftarrow> write3 o1 (size_t_of_int n) 2 (size_t_of_int f) ((1 - u) * c * g2);
            g3 \<leftarrow> read2 dL_dfeatInterpOutput (size_t_of_int n) (size_t_of_int f);
            o3 \<leftarrow> write3 o2 (size_t_of_int n) 3 (size_t_of_int f) ((1 - u) * d * g3);
            g4 \<leftarrow> read2 dL_dfeatInterpOutput (size_t_of_int n) (size_t_of_int f);
            o4 \<leftarrow> write3 o3 (size_t_of_int n) 4 (size_t_of_int f) (u * a * g4);
            g5 \<leftarrow> read2 dL_dfeatInterpOutput (size_t_of_int n) (size_t_of_int f);
            o5 \<leftarrow> write3 o4 (size_t_of_int n) 5 (size_t_of_int f) (u * b * g5);
            g6 \<leftarrow> read2 dL_dfeatInterpOutput (size_t_of_int n) (size_t_of_int f);
            o6 \<leftarrow> write3 o5 (size_t_of_int n) 6 (size_t_of_int f) (u * c * g6);
            g7 \<leftarrow> read2 dL_dfeatInterpOutput (size_t_of_int n) (size_t_of_int f);
            write3 o6 (size_t_of_int n) 7 (size_t_of_int f) (u * d * g7)
          }
        else Some dL_dFeatures)"

definition trilinear_backward_cu ::
  "tensor \<Rightarrow> tensor \<Rightarrow> tensor \<Rightarrow> (nat \<Rightarrow> scalar_t) \<Rightarrow> error + tensor"
where
  "trilinear_backward_cu dL_dfeatInterpOutput features points uninit =
     (case size_of features 0 of Inl e \<Rightarrow> Inl e | Inr s0 \<Rightarrow>
     (case size_of features 2 of Inl e \<Rightarrow> Inl e | Inr s2 \<Rightarrow>
     (let N = int_of_int64 (int s0); F = int_of_int64 (int s2) in
     (case torch_empty [N, 8, F] uninit of Inl e \<Rightarrow> Inl e | Inr dL_dFeatures \<Rightarrow>
     (case packed_accessor 3 features of Inl e \<Rightarrow> Inl e | Inr features_acc \<Rightarrow>
     (case packed_accessor 2 points of Inl e \<Rightarrow> Inl e | Inr points_acc \<Rightarrow>
     (case packed_accessor 2 dL_dfeatInterpOutput of Inl e \<Rightarrow> Inl e | Inr grad_acc \<Rightarrow>
     (case packed_accessor 3 dL_dFeatures of Inl e \<Rightarrow> Inl e | Inr out_acc \<Rightarrow>
        launch (trilinear_backward_kernel features_acc points_acc grad_acc)
          (numBlocks N F) numThreadsPerBlock out_acc))))))))"

subsection \<open>Vocabulary of the statements\<close>

text \<open>
  The element \<^verbatim>\<open>t[i][j]\<close> or \<^verbatim>\<open>t[i][j][k]\<close> held by a tensor; meaningful when the tensor's
  buffer covers its index space (\<open>tensor_ok\<close> below).
\<close>

definition at2 :: "tensor \<Rightarrow> nat \<Rightarrow> nat \<Rightarrow> scalar_t" where
  "at2 t i j = elems t ! offset2 t i j"

definition at3 :: "tensor \<Rightarrow> nat \<Rightarrow> nat \<Rightarrow> nat \<Rightarrow> scalar_t" where
  "at3 t i j k = elems t ! offset3 t i j k"

text \<open>The element \<open>[n][f]\<close> or \<open>[n][c][f]\<close> of the tensor a call returns; \<open>None\<close> when the call
  returned no tensor or the tensor has no such element.\<close>

definition output_at :: "error + tensor \<Rightarrow> nat \<Rightarrow> nat \<Rightarrow> scalar_t option" where
  "output_at r n f = (case r of Inl e \<Rightarrow> None | Inr t \<Rightarrow> read2 t n f)"

definition gradient_at :: "error + tensor \<Rightarrow> nat \<Rightarrow> nat \<Rightarrow> nat \<Rightarrow> scalar_t option" where
  "gradient_at r n c f = (case r of Inl e \<Rightarrow> None | Inr t \<Rightarrow> read3 t n c f)"

text \<open>
  A tensor as the caller hands it over: one stride per dimension, and the buffer holds the
  element of every index below the sizes (the largest offset is reached at the last index
  of every dimension).
\<close>

definition tensor_ok :: "tensor \<Rightarrow> bool" where
  "tensor_ok t \<longleftrightarrow>
     length (strides t) = length (sizes t) \<and>
     (0 \<in> set (sizes t) \<or>
      sum_list (map2 (\<lambda>s st. (s - 1) * st) (sizes t) (strides t)) < length (elems t))"

text \<open>
  The shapes of section 3 of the specification: Features is \<open>(N, 8, F)\<close>, Points is \<open>(N, 3)\<close>,
  UpstreamGradient is \<open>(N, F)\<close>; \<open>N\<close> and \<open>F\<close> fit the type \<^verbatim>\<open>int\<close> the entry points store them in.
\<close>

definition forward_inputs :: "tensor \<Rightarrow> tensor \<Rightarrow> nat \<Rightarrow> nat \<Rightarrow> bool" where
  "forward_inputs features points N F \<longleftrightarrow>
     sizes features = [N, 8, F] \<and> sizes points = [N, 3] \<and>
     tensor_ok features \<and> tensor_ok points \<and> N < 2 ^ 31 \<and> F < 2 ^ 31"

definition backward_inputs :: "tensor \<Rightarrow> tensor \<Rightarrow> tensor \<Rightarrow> nat \<Rightarrow> nat \<Rightarrow> bool" where
  "backward_inputs dL_dfeatInterpOutput features points N F \<longleftrightarrow>
     sizes dL_dfeatInterpOutput = [N, F] \<and> tensor_ok dL_dfeatInterpOutput \<and>
     forward_inputs features points N F"

text \<open>
  What the kernels need of their arguments for every access to stay inside the buffers,
  for \<open>N\<close> cubes and \<open>F\<close> channels: Features is \<open>(N, C, F)\<close> with at least 8 corners,
  Points has at least \<open>N\<close> rows and 3 columns, UpstreamGradient at least \<open>N\<close> rows and \<open>F\<close>
  columns. The shapes of section 3 are the case \<open>C = 8\<close> with exactly \<open>N\<close> rows and 3 or \<open>F\<close>
  columns.
\<close>

definition forward_in_bounds :: "tensor \<Rightarrow> tensor \<Rightarrow> nat \<Rightarrow> nat \<Rightarrow> bool" where
  "forward_in_bounds features points N F \<longleftrightarrow>
     length (sizes features) = 3 \<and> sizes features ! 0 = N \<and> 8 \<le> sizes features ! 1 \<and>
     sizes features ! 2 = F \<and>
     length (sizes points) = 2 \<and> N \<le> sizes points ! 0 \<and> 3 \<le> sizes points ! 1 \<and>
     tensor_ok features \<and> tensor_ok points \<and> N < 2 ^ 31 \<and> F < 2 ^ 31"

definition backward_in_bounds :: "tensor \<Rightarrow> tensor \<Rightarrow> tensor \<Rightarrow> nat \<Rightarrow> nat \<Rightarrow> bool" where
  "backward_in_bounds dL_dfeatInterpOutput features points N F \<longleftrightarrow>
     length (sizes dL_dfeatInterpOutput) = 2 \<and> N \<le> sizes dL_dfeatInterpOutput ! 0 \<and>
     F \<le> sizes dL_dfeatInterpOutput ! 1 \<and> tensor_ok dL_dfeatInterpOutput \<and>
     forward_in_bounds features points N F"

text \<open>The pair \<open>(n, f)\<close> a thread derives from its block and thread indices, as the
  \<^verbatim>\<open>size_t\<close> values both kernels compare with the sizes and index with.\<close>

definition thread_n :: "dim3 \<Rightarrow> dim3 \<Rightarrow> dim3 \<Rightarrow> nat" where
  "thread_n blockDim blockIdx threadIdx =
     size_t_of_int (int_of_uint32 (uint32 (dim_x blockDim * dim_x blockIdx + dim_x threadIdx)))"

definition thread_f :: "dim3 \<Rightarrow> dim3 \<Rightarrow> dim3 \<Rightarrow> nat" where
  "thread_f blockDim blockIdx threadIdx =
     size_t_of_int (int_of_uint32 (uint32 (dim_y blockDim * dim_y blockIdx + dim_y threadIdx)))"

text \<open>
  The eight interpolation weights of section 4.1 of the specification, in corner order, for
  a query point \<open>(px, py, pz)\<close>.
\<close>

definition weights :: "scalar_t \<Rightarrow> scalar_t \<Rightarrow> scalar_t \<Rightarrow> scalar_t list" where
  "weights px py pz =
     (let u = (px + 1) / 2; v = (py + 1) / 2; w = (pz + 1) / 2;
          a = (1 - v) * (1 - w); b = (1 - v) * w; c = v * (1 - w); d = 1 - a - b - c
      in [(1 - u) * a, (1 - u) * b, (1 - u) * c, (1 - u) * d, u * a, u * b, u * c, u * d])"

text \<open>The forward formula of section 4.2 of the specification for cube \<open>n\<close> and channel \<open>f\<close>.\<close>

definition forward_value :: "tensor \<Rightarrow> tensor \<Rightarrow> nat \<Rightarrow> nat \<Rightarrow> scalar_t" where
  "forward_value features points n f =
     (let u = (at2 points n 0 + 1) / 2; v = (at2 points n 1 + 1) / 2; w = (at2 points n 2 + 1) / 2;
          a = (1 - v) * (1 - w); b = (1 - v) * w; c = v * (1 - w); d = 1 - a - b - c
      in (1 - u) * (a * at3 features n 0 f + b * at3 features n 1 f +
                    c * at3 features n 2 f + d * at3 features n 3 f) +
         u * (a * at3 features n 4 f + b * at3 features n 5 f +
              c * at3 features n 6 f + d * at3 features n 7 f))"

text \<open>The backward formula of section 4.3 of the specification for cube \<open>n\<close>, corner \<open>c\<close> and
  channel \<open>f\<close>.\<close>

definition backward_value :: "tensor \<Rightarrow> tensor \<Rightarrow> nat \<Rightarrow> nat \<Rightarrow> nat \<Rightarrow> scalar_t" where
  "backward_value points dL_dfeatInterpOutput n c f =
     weights (at2 points n 0) (at2 points n 1) (at2 points n 2) ! c * at2 dL_dfeatInterpOutput n f"

section \<open>Proofs\<close>

subsection \<open>Integer conversions and accessor reads\<close>

lemma thread_conv: "k < 2^32 \<Longrightarrow> size_t_of_int (int_of_uint32 (uint32 k)) = (if k < 2^31 then k else 2^64 - 2^32 + k)"
proof (cases "k < 2^31")
  case True
  then show ?thesis by (simp add: size_t_of_int_def int_of_uint32_def uint32_def nat_mod_distrib)
next
  case False
  assume k: "k < 2^32"
  have "(int k - 2^32) mod (2^64::int) = (int k - 2^32 + 2^64) mod 2^64" by (simp only: mod_add_self2)
  also have "\<dots> = int k - 2^32 + 2^64" using k False by (intro mod_pos_pos_trivial) auto
  finally show ?thesis using k False by (simp add: size_t_of_int_def int_of_uint32_def uint32_def)
qed


lemma thread_conv_lt: 
  assumes "k < 2^32" "N < 2^31"
  shows "size_t_of_int (int_of_uint32 (uint32 k)) < N \<longleftrightarrow> k < N"
  using assms by (simp add: thread_conv)

lemma int_of_int64_small: "N < 2^31 \<Longrightarrow> int_of_int64 (int N) = int N"
  by (simp add: int_of_int64_def)

lemma numBlocks_small:
  assumes "N < 2^31" "F < 2^31"
  shows "numBlocks (int N) (int F) = \<lparr>dim_x = (N + 15) div 16, dim_y = (F + 15) div 16, dim_z = 1\<rparr>"
proof -
  have "uint32_of_int (int M + 16 - 1) = M + 15" if "M < 2^31" for M :: nat
  proof -
    have "(int M + 16 - 1) mod 2^32 = int M + 16 - 1"
      using that by (intro mod_pos_pos_trivial) auto
    then show ?thesis by (simp add: uint32_of_int_def)
  qed
  then show ?thesis using assms by (simp add: numBlocks_def numThreadsPerBlock_def)
qed

lemma read2_ok:
  assumes "tensor_ok t" "sizes t = [N, K]" "n < N" "k < K"
  shows "read2 t n k = Some (at2 t n k)"
proof -
  from assms obtain s0 s1 where st: "strides t = [s0, s1]"
    by (cases "strides t"; cases "tl (strides t)"; auto simp: tensor_ok_def)
  have "(N - 1) * s0 + (K - 1) * s1 < length (elems t)"
    using assms st by (auto simp: tensor_ok_def)
  moreover have "n * s0 + k * s1 \<le> (N - 1) * s0 + (K - 1) * s1"
    using assms by (intro add_mono mult_le_mono1) auto
  ultimately have "offset2 t n k < length (elems t)"
    by (simp add: offset2_def st)
  then show ?thesis by (simp add: read2_def load_def at2_def)
qed

lemma read3_ok:
  assumes "tensor_ok t" "sizes t = [N, C, F]" "n < N" "c < C" "f < F"
  shows "read3 t n c f = Some (at3 t n c f)"
proof -
  from assms obtain s0 s1 s2 where st: "strides t = [s0, s1, s2]"
    by (cases "strides t"; cases "tl (strides t)"; cases "tl (tl (strides t))"; auto simp: tensor_ok_def)
  have "(N - 1) * s0 + (C - 1) * s1 + (F - 1) * s2 < length (elems t)"
    using assms st by (auto simp: tensor_ok_def)
  moreover have "n * s0 + c * s1 + f * s2 \<le> (N - 1) * s0 + (C - 1) * s1 + (F - 1) * s2"
    using assms by (intro add_mono mult_le_mono1) auto
  ultimately have "offset3 t n c f < length (elems t)"
    by (simp add: offset3_def st)
  then show ?thesis by (simp add: read3_def load_def at3_def)
qed

subsection \<open>One thread of the forward kernel\<close>

lemma list_of_length_2: "length xs = 2 \<Longrightarrow> xs = [xs ! 0, xs ! 1]"
  by (cases xs; cases "tl xs"; cases "tl (tl xs)") simp_all

lemma list_of_length_3: "length xs = 3 \<Longrightarrow> xs = [xs ! 0, xs ! 1, xs ! 2]"
  by (cases xs; cases "tl xs"; cases "tl (tl xs)"; cases "tl (tl (tl xs))") simp_all

lemma forward_in_bounds_sizes:
  assumes "forward_in_bounds features points N F"
  shows "\<exists>C M K. sizes features = [N, C, F] \<and> sizes points = [M, K] \<and> 8 \<le> C \<and> N \<le> M \<and> 3 \<le> K"
proof -
  from assms have "sizes features = [N, sizes features ! 1, F]"
    "sizes points = [sizes points ! 0, sizes points ! 1]"
    using list_of_length_3 [of "sizes features"] list_of_length_2 [of "sizes points"]
    by (simp_all add: forward_in_bounds_def)
  with assms show ?thesis unfolding forward_in_bounds_def by blast
qed

lemma backward_in_bounds_sizes:
  assumes "backward_in_bounds g features points N F"
  shows "\<exists>M K. sizes g = [M, K] \<and> N \<le> M \<and> F \<le> K"
proof -
  from assms have "sizes g = [sizes g ! 0, sizes g ! 1]"
    using list_of_length_2 [of "sizes g"] by (simp add: backward_in_bounds_def)
  with assms show ?thesis unfolding backward_in_bounds_def by blast
qed

lemma forward_inputs_in_bounds:
  "forward_inputs features points N F \<Longrightarrow> forward_in_bounds features points N F"
  by (simp add: forward_inputs_def forward_in_bounds_def)

lemma backward_inputs_in_bounds:
  "backward_inputs g features points N F \<Longrightarrow> backward_in_bounds g features points N F"
  by (simp add: backward_inputs_def backward_in_bounds_def forward_inputs_in_bounds)

lemma backward_inputs_forward:
  "backward_inputs g features points N F \<Longrightarrow> forward_inputs features points N F"
  by (simp add: backward_inputs_def)

lemma forward_kernel_idle:
  assumes "\<not> (thread_n bd b t < sizes features ! 0 \<and> thread_f bd b t < sizes features ! 2)"
  shows "trilinear_forward_kernel features points bd b t out = Some out"
  unfolding trilinear_forward_kernel_def Let_def thread_n_def [symmetric] thread_f_def [symmetric]
  by (simp only: assms if_False)

lemma forward_kernel_active:
  assumes inp: "forward_in_bounds features points N F"
      and n: "thread_n bd b t < N" and f: "thread_f bd b t < F"
      and off: "offset2 out (thread_n bd b t) (thread_f bd b t) < length (elems out)"
  shows "trilinear_forward_kernel features points bd b t out =
         Some (out\<lparr>elems := (elems out)[offset2 out (thread_n bd b t) (thread_f bd b t) :=
                  forward_value features points (thread_n bd b t) (thread_f bd b t)]\<rparr>)"
proof -
  let ?n = "thread_n bd b t" and ?f = "thread_f bd b t"
  from forward_in_bounds_sizes [OF inp] obtain C M K
    where sz: "sizes features = [N, C, F]" "sizes points = [M, K]"
      and le: "8 \<le> C" "N \<le> M" "3 \<le> K"
    by blast
  from inp have ok: "tensor_ok features" "tensor_ok points"
    by (simp_all add: forward_in_bounds_def)
  have p: "read2 points ?n k = Some (at2 points ?n k)" if "k < 3" for k
    using read2_ok [OF ok(2) sz(2), of ?n k] n that le by simp
  have r: "read3 features ?n c ?f = Some (at3 features ?n c ?f)" if "c < 8" for c
    using read3_ok [OF ok(1) sz(1), of ?n c ?f] n f that le by simp
  have g: "?n < sizes features ! 0 \<and> ?f < sizes features ! 2"
    using n f by (simp add: sz)
  show ?thesis
    unfolding trilinear_forward_kernel_def Let_def thread_n_def [symmetric] thread_f_def [symmetric]
    using g off by (simp add: p r write2_def store_def forward_value_def Let_def)
qed

subsection \<open>One thread of the backward kernel\<close>

lemma write3_ok:
  "offset3 t i j k < length (elems t) \<Longrightarrow>
   write3 t i j k x = Some (t\<lparr>elems := (elems t)[offset3 t i j k := x]\<rparr>)"
  by (simp add: write3_def store_def)

lemma elems_elems_update: "elems (t\<lparr>elems := es\<rparr>) = es"
  by simp

lemma elems_update_twice: "t\<lparr>elems := es, elems := es'\<rparr> = t\<lparr>elems := es'\<rparr>"
  by simp

lemma offset3_elems_update [simp]: "offset3 (t\<lparr>elems := es\<rparr>) = offset3 t"
  by (simp add: offset3_def fun_eq_iff)

lemma offset2_elems_update [simp]: "offset2 (t\<lparr>elems := es\<rparr>) = offset2 t"
  by (simp add: offset2_def fun_eq_iff)

lemma decode3:
  fixes n c f F :: nat
  assumes "c < 8" "f < F"
  shows "(n * (8 * F) + c * F + f) div (8 * F) = n"
    and "(n * (8 * F) + c * F + f) div F mod 8 = c"
    and "(n * (8 * F) + c * F + f) mod F = f"
proof -
  have F: "0 < F" using assms by simp
  have "c * F + f < 8 * F"
  proof -
    have "c * F + f < c * F + F" using assms by simp
    also have "\<dots> = (c + 1) * F" by simp
    also have "\<dots> \<le> 8 * F" using assms by (intro mult_le_mono1) simp
    finally show ?thesis .
  qed
  then show "(n * (8 * F) + c * F + f) div (8 * F) = n"
    using F by (simp add: add.assoc)
  have e: "n * (8 * F) + c * F + f = (n * 8 + c) * F + f" by (simp add: algebra_simps)
  then have d: "(n * (8 * F) + c * F + f) div F = n * 8 + c"
    using assms by simp
  show "(n * (8 * F) + c * F + f) div F mod 8 = c"
    unfolding d using assms by simp
  show "(n * (8 * F) + c * F + f) mod F = f"
    unfolding e using assms by simp
qed

lemma offset3_bound:
  fixes n c f N F :: nat
  assumes "n < N" "c < 8" "f < F"
  shows "n * (8 * F) + c * F + f < N * 8 * F"
proof -
  have "n * (8 * F) + c * F + f = (n * 8 + c) * F + f" by (simp add: algebra_simps)
  also have "\<dots> < (n * 8 + c) * F + F" using assms by simp
  also have "\<dots> = (n * 8 + c + 1) * F" by simp
  also have "\<dots> \<le> (N * 8) * F" using assms by (intro mult_le_mono1) simp
  finally show ?thesis by simp
qed

lemma update_step:
  assumes "\<forall>k<L. xs ! k = (if k \<in> S then V k else ys ! k)" "length xs = L"
  shows "\<forall>k<L. xs[j := V j] ! k = (if k \<in> insert j S then V k else ys ! k)"
proof (intro allI impI)
  fix k assume k: "k < L"
  with assms have "xs ! k = (if k \<in> S then V k else ys ! k)" by blast
  with k assms(2) show "xs[j := V j] ! k = (if k \<in> insert j S then V k else ys ! k)"
    by (cases "k = j") (simp_all add: nth_list_update)
qed

lemma below_8: "{..< 8 :: nat} = {7, 6, 5, 4, 3, 2, 1, 0}"
  by auto

lemma backward_kernel_idle:
  assumes "\<not> (thread_n bd b t < sizes features ! 0 \<and> thread_f bd b t < sizes features ! 2)"
  shows "trilinear_backward_kernel features points g bd b t out = Some out"
  unfolding trilinear_backward_kernel_def Let_def thread_n_def [symmetric] thread_f_def [symmetric]
  by (simp only: assms if_False)

lemma backward_kernel_active:
  assumes inp: "backward_in_bounds g features points N F"
      and n: "thread_n bd b t < N" and f: "thread_f bd b t < F"
      and st: "strides out = [8 * F, F, 1]" and len: "length (elems out) = N * 8 * F"
  shows "\<exists>es. trilinear_backward_kernel features points g bd b t out = Some (out\<lparr>elems := es\<rparr>) \<and>
           length es = N * 8 * F \<and>
           (\<forall>k < N * 8 * F. es ! k =
              (if k \<in> (\<lambda>c. thread_n bd b t * (8 * F) + c * F + thread_f bd b t) ` {..< 8}
               then backward_value points g (k div (8 * F)) (k div F mod 8) (k mod F)
               else elems out ! k))"
proof -
  let ?n = "thread_n bd b t" and ?f = "thread_f bd b t"
  let ?V = "\<lambda>k. backward_value points g (k div (8 * F)) (k div F mod 8) (k mod F)"
  let ?o = "\<lambda>c. ?n * (8 * F) + c * F + ?f"
  from inp have finp: "forward_in_bounds features points N F"
    by (simp add: backward_in_bounds_def)
  from forward_in_bounds_sizes [OF finp] obtain C M K
    where sz: "sizes features = [N, C, F]" "sizes points = [M, K]"
      and le: "8 \<le> C" "N \<le> M" "3 \<le> K"
    by blast
  from backward_in_bounds_sizes [OF inp] obtain M' K'
    where szg: "sizes g = [M', K']" and leg: "N \<le> M'" "F \<le> K'"
    by blast
  from inp have ok: "tensor_ok points" "tensor_ok g"
    by (simp_all add: forward_in_bounds_def backward_in_bounds_def)
  have p: "read2 points ?n k = Some (at2 points ?n k)" if "k < 3" for k
    using read2_ok [OF ok(1) sz(2), of ?n k] n that le by simp
  have r: "read2 g ?n ?f = Some (at2 g ?n ?f)"
    using read2_ok [OF ok(2) szg, of ?n ?f] n f leg by simp
  have gd: "?n < sizes features ! 0 \<and> ?f < sizes features ! 2"
    using n f by (simp add: sz)
  have o: "offset3 out ?n c ?f = ?o c" for c
    by (simp add: offset3_def st)
  have ob: "?o c < N * 8 * F" if "c < 8" for c
    using offset3_bound [OF n that f] .
  have V: "?V (?o c) = weights (at2 points ?n 0) (at2 points ?n 1) (at2 points ?n 2) ! c * at2 g ?n ?f"
    if "c < 8" for c
    using decode3 [OF that f, of ?n] by (simp add: backward_value_def)
  let ?G = "at2 g ?n ?f"
  let ?W = "weights (at2 points ?n 0) (at2 points ?n 1) (at2 points ?n 2)"
  define es where "es = (elems out)[?o 0 := ?V (?o 0), ?o 1 := ?V (?o 1), ?o 2 := ?V (?o 2),
     ?o 3 := ?V (?o 3), ?o 4 := ?V (?o 4), ?o 5 := ?V (?o 5), ?o 6 := ?V (?o 6), ?o 7 := ?V (?o 7)]"
  have p0: "read2 points ?n 0 = Some (at2 points ?n 0)" using p [of 0] by simp
  have p1: "read2 points ?n 1 = Some (at2 points ?n 1)" using p [of 1] by simp
  have p2: "read2 points ?n 2 = Some (at2 points ?n 2)" using p [of 2] by simp
  have obs: "?o 0 < N * 8 * F" "?o 1 < N * 8 * F" "?o 2 < N * 8 * F" "?o 3 < N * 8 * F"
    "?o 4 < N * 8 * F" "?o 5 < N * 8 * F" "?o 6 < N * 8 * F" "?o 7 < N * 8 * F"
    by (rule ob, simp)+
  have Vs: "?V (?o 0) = ?W ! 0 * ?G" "?V (?o 1) = ?W ! 1 * ?G" "?V (?o 2) = ?W ! 2 * ?G"
    "?V (?o 3) = ?W ! 3 * ?G" "?V (?o 4) = ?W ! 4 * ?G" "?V (?o 5) = ?W ! 5 * ?G"
    "?V (?o 6) = ?W ! 6 * ?G" "?V (?o 7) = ?W ! 7 * ?G"
    by (rule V, simp)+
  let ?u = "(at2 points ?n 0 + 1) / 2" and ?v = "(at2 points ?n 1 + 1) / 2"
    and ?w = "(at2 points ?n 2 + 1) / 2"
  let ?a = "(1 - ?v) * (1 - ?w)" and ?b = "(1 - ?v) * ?w" and ?c = "?v * (1 - ?w)"
  let ?d = "1 - ?a - ?b - ?c"
  have Ws: "?W ! 0 = (1 - ?u) * ?a" "?W ! 1 = (1 - ?u) * ?b" "?W ! 2 = (1 - ?u) * ?c"
    "?W ! 3 = (1 - ?u) * ?d" "?W ! 4 = ?u * ?a" "?W ! 5 = ?u * ?b" "?W ! 6 = ?u * ?c"
    "?W ! 7 = ?u * ?d"
    by (simp_all add: weights_def Let_def)
  have run: "trilinear_backward_kernel features points g bd b t out = Some (out\<lparr>elems := es\<rparr>)"
    unfolding trilinear_backward_kernel_def Let_def thread_n_def [symmetric] thread_f_def [symmetric]
      es_def Vs Ws
    by (simp only: gd if_True p0 p1 p2 r Option.bind.bind_lunit write3_ok o obs len
        offset3_elems_update length_list_update elems_elems_update elems_update_twice simp_thms)
  have "length es = N * 8 * F" by (simp add: es_def len)
  moreover have "\<forall>k < N * 8 * F. es ! k = (if k \<in> ?o ` {..< 8} then ?V k else elems out ! k)"
    unfolding below_8 image_insert image_empty es_def
    by (intro update_step) (simp_all add: len)
  ultimately show ?thesis using run by blast
qed

subsection \<open>Running a list of threads\<close>

lemma run_threads_elems:
  assumes step: "\<And>b t es. (b, t) \<in> set ts \<Longrightarrow> length es = L \<Longrightarrow>
            \<exists>es'. body b t (out\<lparr>elems := es\<rparr>) = Some (out\<lparr>elems := es'\<rparr>) \<and> length es' = L \<and>
              (\<forall>k<L. es' ! k = (if k \<in> W b t then V k else es ! k))"
      and len: "length es = L"
  shows "\<exists>es'. run_threads body ts (out\<lparr>elems := es\<rparr>) = Some (out\<lparr>elems := es'\<rparr>) \<and> length es' = L \<and>
              (\<forall>k<L. es' ! k = (if \<exists>(b, t) \<in> set ts. k \<in> W b t then V k else es ! k))"
  using assms
proof (induction ts arbitrary: es)
  case Nil
  then show ?case by (intro exI [of _ es]) simp
next
  case (Cons bt ts)
  obtain b t where bt: "bt = (b, t)" by (cases bt)
  from Cons.prems(1) [of b t es] Cons.prems(2) bt
  obtain es1 where 1: "body b t (out\<lparr>elems := es\<rparr>) = Some (out\<lparr>elems := es1\<rparr>)" "length es1 = L"
    "\<forall>k<L. es1 ! k = (if k \<in> W b t then V k else es ! k)"
    by auto
  have "\<exists>es'. run_threads body ts (out\<lparr>elems := es1\<rparr>) = Some (out\<lparr>elems := es'\<rparr>) \<and> length es' = L \<and>
              (\<forall>k<L. es' ! k = (if \<exists>(b, t) \<in> set ts. k \<in> W b t then V k else es1 ! k))"
    using Cons.prems(1) 1(2) by (intro Cons.IH) auto
  then obtain es2 where 2: "run_threads body ts (out\<lparr>elems := es1\<rparr>) = Some (out\<lparr>elems := es2\<rparr>)"
    "length es2 = L"
    "\<forall>k<L. es2 ! k = (if \<exists>(b, t) \<in> set ts. k \<in> W b t then V k else es1 ! k)"
    by blast
  have "run_threads body (bt # ts) (out\<lparr>elems := es\<rparr>) = Some (out\<lparr>elems := es2\<rparr>)"
    by (simp add: bt 1(1) 2(1))
  moreover have "\<forall>k<L. es2 ! k = (if \<exists>(b, t) \<in> set (bt # ts). k \<in> W b t then V k else es ! k)"
    using 1(3) 2(3) by (auto simp: bt)
  ultimately show ?case using 2(2) by blast
qed

subsection \<open>The threads of a grid\<close>

lemma set_indices_below:
  "set (indices_below d) = {i. dim_x i < dim_x d \<and> dim_y i < dim_y d \<and> dim_z i < dim_z d}"
proof (intro set_eqI iffI)
  fix i assume "i \<in> set (indices_below d)"
  then show "i \<in> {i. dim_x i < dim_x d \<and> dim_y i < dim_y d \<and> dim_z i < dim_z d}"
    by (auto simp: indices_below_def)
next
  fix i :: dim3
  assume "i \<in> {i. dim_x i < dim_x d \<and> dim_y i < dim_y d \<and> dim_z i < dim_z d}"
  then have "(dim_z i, dim_y i, dim_x i) \<in>
      set (List.product [0 ..< dim_z d] (List.product [0 ..< dim_y d] [0 ..< dim_x d]))"
    by simp
  moreover have "i = (\<lambda>(k, j, i). \<lparr>dim_x = i, dim_y = j, dim_z = k\<rparr>) (dim_z i, dim_y i, dim_x i)"
    by simp
  ultimately show "i \<in> set (indices_below d)"
    unfolding indices_below_def set_map by (rule image_eqI [rotated])
qed


lemma set_grid_threads:
  "set (grid_threads nb nt) = set (indices_below nb) \<times> set (indices_below nt)"
  by (simp add: grid_threads_def)


lemma thread_conv_eq:
  assumes "k < 2^32" "n < 2^31"
  shows "size_t_of_int (int_of_uint32 (uint32 k)) = n \<longleftrightarrow> k = n"
  using assms by (auto simp: thread_conv)

lemma tile_bound:
  fixes N bx tx :: nat
  assumes "N < 2^31" "bx < (N + 15) div 16" "tx < 16"
  shows "16 * bx + tx < 2^32"
proof -
  have "16 * bx + tx < 16 * ((N + 15) div 16)" using assms by simp
  also have "\<dots> \<le> N + 15" by simp
  finally show ?thesis using assms by simp
qed

lemma in_grid:
  assumes "N < 2^31" "F < 2^31"
  shows "(b, t) \<in> set (grid_threads (numBlocks (int N) (int F)) numThreadsPerBlock) \<longleftrightarrow>
         dim_x b < (N + 15) div 16 \<and> dim_y b < (F + 15) div 16 \<and> dim_z b = 0 \<and>
         dim_x t < 16 \<and> dim_y t < 16 \<and> dim_z t = 0"
  by (auto simp: set_grid_threads set_indices_below numBlocks_small [OF assms] numThreadsPerBlock_def)

lemma grid_thread_n:
  assumes "N < 2^31" "dim_x b < (N + 15) div 16" "dim_x t < 16" "n < N"
  shows "thread_n numThreadsPerBlock b t = n \<longleftrightarrow> 16 * dim_x b + dim_x t = n"
  using thread_conv_eq [OF tile_bound [OF assms(1-3)], of n] assms
  by (simp add: thread_n_def numThreadsPerBlock_def)

lemma grid_thread_f:
  assumes "F < 2^31" "dim_y b < (F + 15) div 16" "dim_y t < 16" "f < F"
  shows "thread_f numThreadsPerBlock b t = f \<longleftrightarrow> 16 * dim_y b + dim_y t = f"
  using thread_conv_eq [OF tile_bound [OF assms(1-3)], of f] assms
  by (simp add: thread_f_def numThreadsPerBlock_def)

lemma tile_decompose:
  fixes n bx tx :: nat
  assumes "tx < 16"
  shows "16 * bx + tx = n \<longleftrightarrow> bx = n div 16 \<and> tx = n mod 16"
  using assms by auto

lemma thread_of_element:
  assumes N: "N < 2^31" and F: "F < 2^31" and n: "n < N" and f: "f < F"
  shows "(b, t) \<in> set (grid_threads (numBlocks (int N) (int F)) numThreadsPerBlock) \<and>
           thread_n numThreadsPerBlock b t = n \<and> thread_f numThreadsPerBlock b t = f \<longleftrightarrow>
         b = \<lparr>dim_x = n div 16, dim_y = f div 16, dim_z = 0\<rparr> \<and>
         t = \<lparr>dim_x = n mod 16, dim_y = f mod 16, dim_z = 0\<rparr>"
    (is "?L \<longleftrightarrow> ?R")
proof
  assume L: ?L
  then have g: "dim_x b < (N + 15) div 16" "dim_y b < (F + 15) div 16" "dim_z b = 0"
      "dim_x t < 16" "dim_y t < 16" "dim_z t = 0"
    by (simp_all add: in_grid [OF N F])
  from L have "16 * dim_x b + dim_x t = n" "16 * dim_y b + dim_y t = f"
    using grid_thread_n [OF N g(1) g(4) n] grid_thread_f [OF F g(2) g(5) f] by simp_all
  then have "dim_x b = n div 16" "dim_x t = n mod 16" "dim_y b = f div 16" "dim_y t = f mod 16"
    using g(4,5) by (simp_all add: tile_decompose)
  with g(3,6) show ?R by simp
next
  assume R: ?R
  have bx: "n div 16 < (N + 15) div 16" using n by simp
  have bf: "f div 16 < (F + 15) div 16" using f by simp
  from R have g: "dim_x b < (N + 15) div 16" "dim_y b < (F + 15) div 16" "dim_z b = 0"
      "dim_x t < 16" "dim_y t < 16" "dim_z t = 0"
    using bx bf by simp_all
  have "thread_n numThreadsPerBlock b t = n"
    using grid_thread_n [OF N g(1) g(4) n] R by simp
  moreover have "thread_f numThreadsPerBlock b t = f"
    using grid_thread_f [OF F g(2) g(5) f] R by simp
  ultimately show ?L using g by (simp add: in_grid [OF N F])
qed

subsection \<open>The entry points in closed form\<close>

lemma forward_in_bounds_accessors:
  assumes "forward_in_bounds features points N F"
  shows "size_of features 0 = Inr N" "size_of features 2 = Inr F"
    "packed_accessor 3 features = Inr features" "packed_accessor 2 points = Inr points"
  using assms by (simp_all add: forward_in_bounds_def size_of_def packed_accessor_def)

lemma torch_empty_2:
  "torch_empty [int N, int F] uninit =
     Inr \<lparr>sizes = [N, F], strides = [max F 1, 1], elems = map uninit [0 ..< N * F]\<rparr>"
  by (simp add: torch_empty_def)

lemma torch_empty_3:
  "torch_empty [int N, 8, int F] uninit =
     Inr \<lparr>sizes = [N, 8, F], strides = [8 * max F 1, max F 1, 1],
          elems = map uninit [0 ..< N * 8 * F]\<rparr>"
  by (simp add: torch_empty_def mult.assoc)

lemma offset2_bound:
  fixes n f N F :: nat
  assumes "n < N" "f < F"
  shows "n * F + f < N * F"
proof -
  have "n * F + f < n * F + F" using assms by simp
  also have "\<dots> = (n + 1) * F" by simp
  also have "\<dots> \<le> N * F" using assms by (intro mult_le_mono1) simp
  finally show ?thesis .
qed

lemma forward_kernel_step:
  assumes inp: "forward_in_bounds features points N F"
      and st: "strides out = [max F 1, 1]" and len: "length es = N * F"
  shows "\<exists>es'. trilinear_forward_kernel features points bd b t (out\<lparr>elems := es\<rparr>) =
                 Some (out\<lparr>elems := es'\<rparr>) \<and> length es' = N * F \<and>
           (\<forall>k < N * F. es' ! k =
              (if k \<in> (if thread_n bd b t < N \<and> thread_f bd b t < F
                        then {thread_n bd b t * F + thread_f bd b t} else {})
               then forward_value features points (k div F) (k mod F)
               else es ! k))"
proof (cases "thread_n bd b t < N \<and> thread_f bd b t < F")
  case True
  let ?n = "thread_n bd b t" and ?f = "thread_f bd b t"
  from True have "max F 1 = F" by simp
  then have o: "offset2 out ?n ?f = ?n * F + ?f"
    by (simp add: offset2_def st)
  have b: "?n * F + ?f < N * F" using True by (intro offset2_bound) simp_all
  have dm: "(?n * F + ?f) div F = ?n" "(?n * F + ?f) mod F = ?f" using True by simp_all
  have "trilinear_forward_kernel features points bd b t (out\<lparr>elems := es\<rparr>) =
      Some (out\<lparr>elems := es[?n * F + ?f := forward_value features points ?n ?f]\<rparr>)"
    using forward_kernel_active [OF inp, of bd b t "out\<lparr>elems := es\<rparr>"] True b
    by (simp add: o len)
  moreover have "\<forall>k < N * F. es[?n * F + ?f := forward_value features points ?n ?f] ! k =
      (if k \<in> {?n * F + ?f} then forward_value features points (k div F) (k mod F) else es ! k)"
    using len dm by (auto simp: nth_list_update)
  ultimately show ?thesis using True len by (intro exI conjI) (assumption, simp_all)
next
  case False
  from inp have "sizes features ! 0 = N" "sizes features ! 2 = F"
    by (simp_all add: forward_in_bounds_def)
  with False have "\<not> (thread_n bd b t < sizes features ! 0 \<and> thread_f bd b t < sizes features ! 2)"
    by simp
  then have "trilinear_forward_kernel features points bd b t (out\<lparr>elems := es\<rparr>) =
      Some (out\<lparr>elems := es\<rparr>)"
    by (rule forward_kernel_idle)
  moreover have "(if thread_n bd b t < N \<and> thread_f bd b t < F
      then {thread_n bd b t * F + thread_f bd b t} else {}) = {}"
    by (simp only: False if_False)
  ultimately show ?thesis using len by (intro exI [of _ es]) (simp only: empty_iff if_False simp_thms)
qed

lemma elems_update_same: "t\<lparr>elems := elems t\<rparr> = t"
  by simp

lemma packed_accessor_fresh:
  "packed_accessor 2 \<lparr>sizes = [a, b], strides = [c, d], elems = es\<rparr> =
     Inr \<lparr>sizes = [a, b], strides = [c, d], elems = es\<rparr>"
  "packed_accessor 3 \<lparr>sizes = [a, b, b'], strides = [c, d, d'], elems = es\<rparr> =
     Inr \<lparr>sizes = [a, b, b'], strides = [c, d, d'], elems = es\<rparr>"
  by (simp_all add: packed_accessor_def)

lemma forward_cu_closed:
  assumes inp: "forward_in_bounds features points N F"
  shows "trilinear_forward_cu features points uninit =
         Inr \<lparr>sizes = [N, F], strides = [max F 1, 1],
              elems = map (\<lambda>k. forward_value features points (k div F) (k mod F)) [0 ..< N * F]\<rparr>"
proof -
  from inp have N: "N < 2^31" and F: "F < 2^31" by (simp_all add: forward_in_bounds_def)
  let ?out = "\<lparr>sizes = [N, F], strides = [max F 1, 1], elems = map uninit [0 ..< N * F]\<rparr>"
  let ?V = "\<lambda>k. forward_value features points (k div F) (k mod F)"
  let ?W = "\<lambda>b t. if thread_n numThreadsPerBlock b t < N \<and> thread_f numThreadsPerBlock b t < F
      then {thread_n numThreadsPerBlock b t * F + thread_f numThreadsPerBlock b t} else {}"
  let ?grid = "grid_threads (numBlocks (int N) (int F)) numThreadsPerBlock"
  have "\<exists>es'. run_threads (trilinear_forward_kernel features points numThreadsPerBlock) ?grid
            (?out\<lparr>elems := map uninit [0 ..< N * F]\<rparr>) = Some (?out\<lparr>elems := es'\<rparr>) \<and>
          length es' = N * F \<and>
          (\<forall>k < N * F. es' ! k =
             (if \<exists>(b, t) \<in> set ?grid. k \<in> ?W b t then ?V k else map uninit [0 ..< N * F] ! k))"
    by (rule run_threads_elems, rule forward_kernel_step [OF inp]) simp_all
  then obtain es where run: "run_threads (trilinear_forward_kernel features points numThreadsPerBlock)
        ?grid ?out = Some (?out\<lparr>elems := es\<rparr>)"
    and len: "length es = N * F"
    and es: "\<forall>k < N * F. es ! k =
             (if \<exists>(b, t) \<in> set ?grid. k \<in> ?W b t then ?V k else map uninit [0 ..< N * F] ! k)"
    by auto
  have "es = map ?V [0 ..< N * F]"
  proof (rule nth_equalityI)
    show "length es = length (map ?V [0 ..< N * F])" by (simp add: len)
  next
    fix k assume "k < length es"
    then have k: "k < N * F" by (simp add: len)
    then have Fpos: "0 < F" by (cases F) simp_all
    have n: "k div F < N" using k by (simp add: less_mult_imp_div_less)
    have f: "k mod F < F" using Fpos by simp
    let ?b = "\<lparr>dim_x = (k div F) div 16, dim_y = (k mod F) div 16, dim_z = 0\<rparr>"
    let ?t = "\<lparr>dim_x = (k div F) mod 16, dim_y = (k mod F) mod 16, dim_z = 0\<rparr>"
    have th: "(?b, ?t) \<in> set ?grid" "thread_n numThreadsPerBlock ?b ?t = k div F"
      "thread_f numThreadsPerBlock ?b ?t = k mod F"
      using thread_of_element [OF N F n f, of ?b ?t] by simp_all
    have "k \<in> ?W ?b ?t" using n f by (simp add: th)
    with th(1) have "\<exists>(b, t) \<in> set ?grid. k \<in> ?W b t" by blast
    with es k have "es ! k = ?V k" by simp
    then show "es ! k = map ?V [0 ..< N * F] ! k" using k by simp
  qed
  with run have "launch (trilinear_forward_kernel features points) (numBlocks (int N) (int F))
      numThreadsPerBlock ?out = Inr (?out\<lparr>elems := map ?V [0 ..< N * F]\<rparr>)"
    by (simp add: launch_def)
  then show ?thesis
    by (simp add: trilinear_forward_cu_def forward_in_bounds_accessors [OF inp] int_of_int64_small [OF N] int_of_int64_small [OF F]
        torch_empty_2 Let_def packed_accessor_fresh)
qed

lemma backward_in_bounds_accessors:
  assumes "backward_in_bounds g features points N F"
  shows "forward_in_bounds features points N F" "packed_accessor 2 g = Inr g"
  using assms by (simp_all add: backward_in_bounds_def packed_accessor_def)

lemma backward_kernel_step:
  assumes inp: "backward_in_bounds g features points N F"
      and st: "strides out = [8 * max F 1, max F 1, 1]" and len: "length es = N * 8 * F"
  shows "\<exists>es'. trilinear_backward_kernel features points g bd b t (out\<lparr>elems := es\<rparr>) =
                 Some (out\<lparr>elems := es'\<rparr>) \<and> length es' = N * 8 * F \<and>
           (\<forall>k < N * 8 * F. es' ! k =
              (if k \<in> (if thread_n bd b t < N \<and> thread_f bd b t < F
                        then (\<lambda>c. thread_n bd b t * (8 * F) + c * F + thread_f bd b t) ` {..< 8}
                        else {})
               then backward_value points g (k div (8 * F)) (k div F mod 8) (k mod F)
               else es ! k))"
proof (cases "thread_n bd b t < N \<and> thread_f bd b t < F")
  case True
  then have n: "thread_n bd b t < N" and f: "thread_f bd b t < F" by simp_all
  from f have "max F 1 = F" by simp
  then have st': "strides (out\<lparr>elems := es\<rparr>) = [8 * F, F, 1]" using st by simp
  have len': "length (elems (out\<lparr>elems := es\<rparr>)) = N * 8 * F" using len by simp
  show ?thesis
    using backward_kernel_active [OF inp n f st' len']
    by (simp only: True if_True elems_update_twice elems_elems_update simp_thms)
next
  case False
  from inp have "sizes features ! 0 = N" "sizes features ! 2 = F"
    by (simp_all add: backward_in_bounds_def forward_in_bounds_def)
  with False have "\<not> (thread_n bd b t < sizes features ! 0 \<and> thread_f bd b t < sizes features ! 2)"
    by simp
  then have "trilinear_backward_kernel features points g bd b t (out\<lparr>elems := es\<rparr>) =
      Some (out\<lparr>elems := es\<rparr>)"
    by (rule backward_kernel_idle)
  moreover have "(if thread_n bd b t < N \<and> thread_f bd b t < F
      then (\<lambda>c. thread_n bd b t * (8 * F) + c * F + thread_f bd b t) ` {..< 8} else {}) = {}"
    by (simp only: False if_False)
  ultimately show ?thesis using len by (intro exI [of _ es]) (simp only: empty_iff if_False simp_thms)
qed

lemma backward_cu_closed:
  assumes inp: "backward_in_bounds g features points N F"
  shows "trilinear_backward_cu g features points uninit =
         Inr \<lparr>sizes = [N, 8, F], strides = [8 * max F 1, max F 1, 1],
              elems = map (\<lambda>k. backward_value points g (k div (8 * F)) (k div F mod 8) (k mod F))
                        [0 ..< N * 8 * F]\<rparr>"
proof -
  note finp = backward_in_bounds_accessors(1) [OF inp]
  from finp have N: "N < 2^31" and F: "F < 2^31" by (simp_all add: forward_in_bounds_def)
  let ?L = "N * 8 * F"
  let ?out = "\<lparr>sizes = [N, 8, F], strides = [8 * max F 1, max F 1, 1], elems = map uninit [0 ..< ?L]\<rparr>"
  let ?V = "\<lambda>k. backward_value points g (k div (8 * F)) (k div F mod 8) (k mod F)"
  let ?W = "\<lambda>b t. if thread_n numThreadsPerBlock b t < N \<and> thread_f numThreadsPerBlock b t < F
      then (\<lambda>c. thread_n numThreadsPerBlock b t * (8 * F) + c * F + thread_f numThreadsPerBlock b t) ` {..< 8}
      else {}"
  let ?grid = "grid_threads (numBlocks (int N) (int F)) numThreadsPerBlock"
  have "\<exists>es'. run_threads (trilinear_backward_kernel features points g numThreadsPerBlock) ?grid
            (?out\<lparr>elems := map uninit [0 ..< ?L]\<rparr>) = Some (?out\<lparr>elems := es'\<rparr>) \<and>
          length es' = ?L \<and>
          (\<forall>k < ?L. es' ! k =
             (if \<exists>(b, t) \<in> set ?grid. k \<in> ?W b t then ?V k else map uninit [0 ..< ?L] ! k))"
    by (rule run_threads_elems, rule backward_kernel_step [OF inp]) simp_all
  then obtain es where run: "run_threads (trilinear_backward_kernel features points g numThreadsPerBlock)
        ?grid ?out = Some (?out\<lparr>elems := es\<rparr>)"
    and len: "length es = ?L"
    and es: "\<forall>k < ?L. es ! k =
             (if \<exists>(b, t) \<in> set ?grid. k \<in> ?W b t then ?V k else map uninit [0 ..< ?L] ! k)"
    by auto
  have "es = map ?V [0 ..< ?L]"
  proof (rule nth_equalityI)
    show "length es = length (map ?V [0 ..< ?L])" by (simp add: len)
  next
    fix k assume "k < length es"
    then have k: "k < ?L" by (simp add: len)
    then have Fpos: "0 < F" by (cases F) simp_all
    define n c f where "n = k div (8 * F)" and "c = k div F mod 8" and "f = k mod F"
    have "k < N * (8 * F)" using k by (simp add: mult.assoc)
    then have n: "n < N" unfolding n_def by (simp add: less_mult_imp_div_less)
    have f: "f < F" and c: "c < 8" using Fpos by (simp_all add: f_def c_def)
    have keq: "k = n * (8 * F) + c * F + f"
    proof -
      have "k = (k div F) * F + f" by (simp add: f_def)
      moreover have "k div F = (k div F div 8) * 8 + c" by (simp add: c_def)
      moreover have "k div F div 8 = n" by (simp add: n_def div_mult2_eq mult.commute)
      ultimately have "k = (n * 8 + c) * F + f" by simp
      then show ?thesis by (simp add: algebra_simps)
    qed
    let ?b = "\<lparr>dim_x = n div 16, dim_y = f div 16, dim_z = 0\<rparr>"
    let ?t = "\<lparr>dim_x = n mod 16, dim_y = f mod 16, dim_z = 0\<rparr>"
    have th: "(?b, ?t) \<in> set ?grid" "thread_n numThreadsPerBlock ?b ?t = n"
      "thread_f numThreadsPerBlock ?b ?t = f"
      using thread_of_element [OF N F n f, of ?b ?t] by simp_all
    have "k \<in> ?W ?b ?t" unfolding th using n f c keq by simp
    with th(1) have "\<exists>(b, t) \<in> set ?grid. k \<in> ?W b t" by blast
    with es k have "es ! k = ?V k" by simp
    then show "es ! k = map ?V [0 ..< ?L] ! k" using k by simp
  qed
  with run have "launch (trilinear_backward_kernel features points g) (numBlocks (int N) (int F))
      numThreadsPerBlock ?out = Inr (?out\<lparr>elems := map ?V [0 ..< ?L]\<rparr>)"
    by (simp add: launch_def)
  then show ?thesis
    by (simp add: trilinear_backward_cu_def forward_in_bounds_accessors [OF finp]
        backward_in_bounds_accessors [OF inp] int_of_int64_small [OF N] int_of_int64_small [OF F]
        torch_empty_3 Let_def packed_accessor_fresh)
qed

subsection \<open>Reading the returned tensors\<close>

lemma output_at_forward:
  assumes "forward_in_bounds features points N F" "n < N" "f < F"
  shows "output_at (trilinear_forward_cu features points uninit) n f =
         Some (forward_value features points n f)"
proof -
  have "n * F + f < N * F" using assms(2,3) by (rule offset2_bound)
  moreover have "(n * F + f) div F = n" "(n * F + f) mod F = f" using assms(3) by simp_all
  moreover from assms(3) have "max F 1 = F" by simp
  ultimately show ?thesis
    by (simp add: forward_cu_closed [OF assms(1)] output_at_def read2_def load_def offset2_def)
qed

lemma gradient_at_backward:
  assumes "backward_in_bounds g features points N F" "n < N" "c < 8" "f < F"
  shows "gradient_at (trilinear_backward_cu g features points uninit) n c f =
         Some (backward_value points g n c f)"
proof -
  have "n * (8 * F) + c * F + f < N * 8 * F" using assms(2-4) by (rule offset3_bound)
  moreover from assms(4) have "max F 1 = F" by simp
  ultimately show ?thesis
    using decode3 [OF assms(3,4), of n]
    by (simp add: backward_cu_closed [OF assms(1)] gradient_at_def read3_def load_def offset3_def)
qed

subsection \<open>The forward and backward formulas\<close>

text \<open>
  Claim C1. For well-shaped inputs, every cube index \<open>n < N\<close> and channel \<open>f < F\<close>, the
  forward call returns a tensor whose element \<open>[n][f]\<close> is
  \<open>(1-u)(a Feat[n,0,f] + b Feat[n,1,f] + c Feat[n,2,f] + d Feat[n,3,f]) +
   u (a Feat[n,4,f] + b Feat[n,5,f] + c Feat[n,6,f] + d Feat[n,7,f])\<close>
  with \<open>u, v, w\<close> the normalised coordinates of \<open>Points[n]\<close> and \<open>a, b, c, d\<close> as in the kernel.
\<close>

theorem forward_formula:
  assumes "forward_inputs features points N F" "n < N" "f < F"
  shows "output_at (trilinear_forward_cu features points uninit) n f =
         Some (let u = (at2 points n 0 + 1) / 2;
                   v = (at2 points n 1 + 1) / 2;
                   w = (at2 points n 2 + 1) / 2;
                   a = (1 - v) * (1 - w);
                   b = (1 - v) * w;
                   c = v * (1 - w);
                   d = 1 - a - b - c
               in (1 - u) * (a * at3 features n 0 f + b * at3 features n 1 f +
                             c * at3 features n 2 f + d * at3 features n 3 f) +
                  u * (a * at3 features n 4 f + b * at3 features n 5 f +
                       c * at3 features n 6 f + d * at3 features n 7 f))"
  using output_at_forward [OF forward_inputs_in_bounds [OF assms(1)] assms(2,3)]
  by (simp only: forward_value_def)

theorem forward_formula_witness:
  "output_at (trilinear_forward_cu
      \<lparr>sizes = [1, 8, 1], strides = [8, 1, 1], elems = [0, 0, 0, 0, 1, 1, 1, 1]\<rparr>
      \<lparr>sizes = [1, 3], strides = [3, 1], elems = [0, -1, -1]\<rparr> (\<lambda>k. 0)) 0 0 = Some (1 / 2)"
  using forward_formula [of "\<lparr>sizes = [1, 8, 1], strides = [8, 1, 1], elems = [0, 0, 0, 0, 1, 1, 1, 1]\<rparr>"
      "\<lparr>sizes = [1, 3], strides = [3, 1], elems = [0, -1, -1]\<rparr>" 1 1 0 0 "\<lambda>k. 0"]
  by (simp add: forward_inputs_def tensor_ok_def at2_def at3_def offset2_def offset3_def)

text \<open>
  Claim C2. For well-shaped inputs, every cube index \<open>n < N\<close>, corner \<open>corner < 8\<close> and channel
  \<open>f < F\<close>, the backward call returns a tensor whose element \<open>[n][corner][f]\<close> is the corner's
  interpolation weight times \<open>UpstreamGradient[n,f]\<close>; the weights of corners 0 to 7 are
  \<open>(1-u)a, (1-u)b, (1-u)c, (1-u)d, ua, ub, uc, ud\<close>, recomputed from \<open>Points[n]\<close>.
\<close>

theorem backward_formula:
  assumes "backward_inputs g features points N F" "n < N" "corner < 8" "f < F"
  shows "gradient_at (trilinear_backward_cu g features points uninit) n corner f =
         Some ((let u = (at2 points n 0 + 1) / 2;
                    v = (at2 points n 1 + 1) / 2;
                    w = (at2 points n 2 + 1) / 2;
                    a = (1 - v) * (1 - w);
                    b = (1 - v) * w;
                    c = v * (1 - w);
                    d = 1 - a - b - c
                in [(1 - u) * a, (1 - u) * b, (1 - u) * c, (1 - u) * d,
                    u * a, u * b, u * c, u * d]) ! corner * at2 g n f)"
  using gradient_at_backward [OF backward_inputs_in_bounds [OF assms(1)] assms(2-4)]
  by (simp only: backward_value_def weights_def)

theorem backward_formula_witness:
  "map (\<lambda>corner. gradient_at (trilinear_backward_cu
      \<lparr>sizes = [1, 1], strides = [1, 1], elems = [2]\<rparr>
      \<lparr>sizes = [1, 8, 1], strides = [8, 1, 1], elems = [0, 0, 0, 0, 1, 1, 1, 1]\<rparr>
      \<lparr>sizes = [1, 3], strides = [3, 1], elems = [0, -1, -1]\<rparr> (\<lambda>k. 0)) 0 corner 0) [0, 4, 7] =
   [Some 1, Some 1, Some 0]"
  using backward_formula [of "\<lparr>sizes = [1, 1], strides = [1, 1], elems = [2]\<rparr>"
      "\<lparr>sizes = [1, 8, 1], strides = [8, 1, 1], elems = [0, 0, 0, 0, 1, 1, 1, 1]\<rparr>"
      "\<lparr>sizes = [1, 3], strides = [3, 1], elems = [0, -1, -1]\<rparr>" 1 1 0 _ 0 "\<lambda>k. 0"]
  by (simp add: backward_inputs_def forward_inputs_def tensor_ok_def at2_def at3_def offset2_def
      offset3_def Let_def)

subsection \<open>Algebraic properties of the weights\<close>

lemma sum_below_8: "(\<Sum>c<8. h c) = h 0 + h 1 + h 2 + h 3 + h 4 + h 5 + h 6 + (h 7 :: real)" for h :: "nat \<Rightarrow> real"
  by (simp add: numeral_eq_Suc)

lemma all_below_8:
  "(\<forall>c<8. P c) \<longleftrightarrow> P 0 \<and> P 1 \<and> P 2 \<and> P 3 \<and> P 4 \<and> P 5 \<and> P 6 \<and> P (7 :: nat)"
proof -
  have "(\<forall>c<8. P c) \<longleftrightarrow> (\<forall>c \<in> {..< 8}. P c)" by auto
  then show ?thesis unfolding below_8 by auto
qed

lemma complement_weight: "1 - (1 - v) * (1 - w) - (1 - v) * w - v * (1 - w) = v * w" for v w :: real
  by (simp add: algebra_simps)

lemma weights_nth:
  fixes px py pz :: real
  defines "u \<equiv> (px + 1) / 2" and "v \<equiv> (py + 1) / 2" and "w \<equiv> (pz + 1) / 2"
  shows "weights px py pz ! 0 = (1 - u) * ((1 - v) * (1 - w))"
    "weights px py pz ! 1 = (1 - u) * ((1 - v) * w)"
    "weights px py pz ! 2 = (1 - u) * (v * (1 - w))"
    "weights px py pz ! 3 = (1 - u) * (v * w)"
    "weights px py pz ! 4 = u * ((1 - v) * (1 - w))"
    "weights px py pz ! 5 = u * ((1 - v) * w)"
    "weights px py pz ! 6 = u * (v * (1 - w))"
    "weights px py pz ! 7 = u * (v * w)"
  unfolding weights_def Let_def u_def [symmetric] v_def [symmetric] w_def [symmetric] complement_weight
  by simp_all

lemma forward_value_sum:
  "forward_value features points n f =
     (\<Sum>c<8. weights (at2 points n 0) (at2 points n 1) (at2 points n 2) ! c * at3 features n c f)"
proof -
  define u v w where "u = (at2 points n 0 + 1) / 2" and "v = (at2 points n 1 + 1) / 2"
    and "w = (at2 points n 2 + 1) / 2"
  have "(1 - u) * ((1 - v) * (1 - w) * f0 + (1 - v) * w * f1 + v * (1 - w) * f2 + v * w * f3) +
        u * ((1 - v) * (1 - w) * f4 + (1 - v) * w * f5 + v * (1 - w) * f6 + v * w * f7) =
        (1 - u) * ((1 - v) * (1 - w)) * f0 + (1 - u) * ((1 - v) * w) * f1 +
        (1 - u) * (v * (1 - w)) * f2 + (1 - u) * (v * w) * f3 +
        u * ((1 - v) * (1 - w)) * f4 + u * ((1 - v) * w) * f5 + u * (v * (1 - w)) * f6 +
        u * (v * w) * f7" for f0 f1 f2 f3 f4 f5 f6 f7 :: real
    by (simp add: algebra_simps)
  then show ?thesis
    unfolding sum_below_8 weights_nth forward_value_def Let_def complement_weight u_def v_def w_def .
qed

lemma weights_sum: "(\<Sum>c<8. weights px py pz ! c) = 1"
proof -
  define u v w where "u = (px + 1) / 2" and "v = (py + 1) / 2" and "w = (pz + 1) / 2"
  have "(1 - u) * ((1 - v) * (1 - w)) + (1 - u) * ((1 - v) * w) + (1 - u) * (v * (1 - w)) +
        (1 - u) * (v * w) + u * ((1 - v) * (1 - w)) + u * ((1 - v) * w) + u * (v * (1 - w)) +
        u * (v * w) = 1"
    by (simp add: algebra_simps)
  then show ?thesis unfolding sum_below_8 weights_nth u_def v_def w_def .
qed

text \<open>
  Claim C6 (partition of unity). For every query point \<open>(px, py, pz)\<close>, inside the cube or
  not, the eight weights sum to 1. In the program: the eight gradient entries the backward
  call writes for \<open>(n, f)\<close>, which are the weights times \<open>UpstreamGradient[n,f]\<close>, sum to
  \<open>UpstreamGradient[n,f]\<close>, and the forward output of a cube whose eight corners carry the
  same value \<open>x\<close> in channel \<open>f\<close> is \<open>x\<close>.
\<close>

theorem partition_of_unity:
  "sum_list (weights px py pz) = 1 \<and>
   (backward_inputs g features points N F \<and> n < N \<and> f < F \<longrightarrow>
      (\<Sum>c<8. the (gradient_at (trilinear_backward_cu g features points uninit) n c f)) = at2 g n f \<and>
      ((\<forall>c<8. at3 features n c f = x) \<longrightarrow>
         output_at (trilinear_forward_cu features points uninit') n f = Some x))"
proof (intro conjI impI; (elim conjE)?)
  have "sum_list (weights px py pz) = (\<Sum>c<8. weights px py pz ! c)"
    unfolding sum_below_8 by (simp add: weights_def Let_def)
  then show "sum_list (weights px py pz) = 1" by (simp only: weights_sum)
next
  assume inp: "backward_inputs g features points N F" and n: "n < N" and f: "f < F"
  let ?W = "weights (at2 points n 0) (at2 points n 1) (at2 points n 2)"
  have "(\<Sum>c<8. the (gradient_at (trilinear_backward_cu g features points uninit) n c f)) =
        (\<Sum>c<8. ?W ! c * at2 g n f)"
    by (intro sum.cong refl) (simp add: gradient_at_backward [OF backward_inputs_in_bounds [OF inp] n _ f] backward_value_def)
  also have "\<dots> = (\<Sum>c<8. ?W ! c) * at2 g n f" by (simp only: sum_distrib_right)
  finally show "(\<Sum>c<8. the (gradient_at (trilinear_backward_cu g features points uninit) n c f)) =
      at2 g n f"
    by (simp only: weights_sum mult_1)
next
  assume inp: "backward_inputs g features points N F" and n: "n < N" and f: "f < F"
    and x: "\<forall>c<8. at3 features n c f = x"
  let ?W = "weights (at2 points n 0) (at2 points n 1) (at2 points n 2)"
  have "forward_value features points n f = (\<Sum>c<8. ?W ! c * x)"
    unfolding forward_value_sum using x by (intro sum.cong refl) simp
  also have "\<dots> = (\<Sum>c<8. ?W ! c) * x" by (simp only: sum_distrib_right)
  finally have "forward_value features points n f = x" by (simp only: weights_sum mult_1)
  then show "output_at (trilinear_forward_cu features points uninit') n f = Some x"
    using output_at_forward [OF forward_inputs_in_bounds [OF backward_inputs_forward [OF inp]] n f] by simp
qed

theorem partition_of_unity_witness:
  "sum_list (weights 3 (-5) (1 / 2)) = 1 \<and>
   (\<Sum>c<8. the (gradient_at (trilinear_backward_cu
      \<lparr>sizes = [1, 1], strides = [1, 1], elems = [2]\<rparr>
      \<lparr>sizes = [1, 8, 1], strides = [8, 1, 1], elems = [6, 6, 6, 6, 6, 6, 6, 6]\<rparr>
      \<lparr>sizes = [1, 3], strides = [3, 1], elems = [3, -5, 1 / 2]\<rparr> (\<lambda>k. 0)) 0 c 0)) = 2 \<and>
   output_at (trilinear_forward_cu
      \<lparr>sizes = [1, 8, 1], strides = [8, 1, 1], elems = [6, 6, 6, 6, 6, 6, 6, 6]\<rparr>
      \<lparr>sizes = [1, 3], strides = [3, 1], elems = [3, -5, 1 / 2]\<rparr> (\<lambda>k. 0)) 0 0 = Some 6"
  using partition_of_unity [of 3 "-5" "1 / 2" "\<lparr>sizes = [1, 1], strides = [1, 1], elems = [2]\<rparr>"
      "\<lparr>sizes = [1, 8, 1], strides = [8, 1, 1], elems = [6, 6, 6, 6, 6, 6, 6, 6]\<rparr>"
      "\<lparr>sizes = [1, 3], strides = [3, 1], elems = [3, -5, 1 / 2]\<rparr>" 1 1 0 0 "\<lambda>k. 0" 6 "\<lambda>k. 0"]
  by (simp add: backward_inputs_def forward_inputs_def tensor_ok_def at2_def at3_def offset2_def
      offset3_def all_below_8)

text \<open>
  Claim C7 (corner exactness). When \<open>Points[n]\<close> is a corner of the cube, that is when its
  normalised coordinates \<open>(u, v, w) = (i, j, k)\<close> lie in \<open>{0,1}^3\<close>, the forward output
  \<open>[n][f]\<close> is exactly \<open>Features[n][4i + 2j + k][f]\<close>: corners 0 to 3 on the face \<open>u = 0\<close>
  and corners 4 to 7 on the face \<open>u = 1\<close>, each face in the order of the weights
  \<open>a, b, c, d\<close>.
\<close>

theorem corner_exactness:
  assumes inp: "forward_inputs features points N F" and n: "n < N" and f: "f < F"
      and ijk: "i \<le> 1" "j \<le> 1" "k \<le> 1"
      and p: "at2 points n 0 = 2 * real i - 1" "at2 points n 1 = 2 * real j - 1"
        "at2 points n 2 = 2 * real k - 1"
  shows "output_at (trilinear_forward_cu features points uninit) n f =
         Some (at3 features n (4 * i + 2 * j + k) f)"
proof -
  from ijk have "i = 0 \<or> i = 1" "j = 0 \<or> j = 1" "k = 0 \<or> k = 1" by auto
  then have "forward_value features points n f = at3 features n (4 * i + 2 * j + k) f"
    using p by (elim disjE) (simp_all add: forward_value_def eval_nat_numeral)
  then show ?thesis using output_at_forward [OF forward_inputs_in_bounds [OF inp] n f] by simp
qed

theorem corner_exactness_witness:
  "output_at (trilinear_forward_cu
      \<lparr>sizes = [1, 8, 1], strides = [8, 1, 1], elems = [10, 11, 12, 13, 14, 15, 16, 17]\<rparr>
      \<lparr>sizes = [1, 3], strides = [3, 1], elems = [1, -1, 1]\<rparr> (\<lambda>k. 0)) 0 0 = Some 15"
  using corner_exactness [of "\<lparr>sizes = [1, 8, 1], strides = [8, 1, 1], elems = [10, 11, 12, 13, 14, 15, 16, 17]\<rparr>"
      "\<lparr>sizes = [1, 3], strides = [3, 1], elems = [1, -1, 1]\<rparr>" 1 1 0 0 1 0 1 "\<lambda>k. 0"]
  by (simp add: forward_inputs_def tensor_ok_def at2_def at3_def offset2_def offset3_def)

text \<open>
  Claim C8 (linearity in Features). For fixed Points, scaling the eight corner features of
  cube \<open>n\<close> by \<open>k\<close> scales the output of cube \<open>n\<close> by \<open>k\<close>, and adding two feature tensors
  corner by corner adds the outputs.
\<close>

theorem forward_linear:
  assumes inp: "forward_inputs features points N F" and inp': "forward_inputs features' points N F"
      and inp'': "forward_inputs features'' points N F"
      and n: "n < N" and f: "f < F"
  shows "\<exists>y y'. output_at (trilinear_forward_cu features points uninit) n f = Some y \<and>
           output_at (trilinear_forward_cu features' points uninit') n f = Some y' \<and>
           ((\<forall>c<8. at3 features' n c f = k * at3 features n c f) \<longrightarrow> y' = k * y) \<and>
           ((\<forall>c<8. at3 features'' n c f = at3 features n c f + at3 features' n c f) \<longrightarrow>
              output_at (trilinear_forward_cu features'' points uninit'') n f = Some (y + y'))"
proof (intro exI conjI impI)
  let ?W = "weights (at2 points n 0) (at2 points n 1) (at2 points n 2)"
  show "output_at (trilinear_forward_cu features points uninit) n f =
      Some (forward_value features points n f)"
    by (rule output_at_forward [OF forward_inputs_in_bounds [OF inp] n f])
  show "output_at (trilinear_forward_cu features' points uninit') n f =
      Some (forward_value features' points n f)"
    by (rule output_at_forward [OF forward_inputs_in_bounds [OF inp'] n f])
  {
    assume "\<forall>c<8. at3 features' n c f = k * at3 features n c f"
    then have "forward_value features' points n f = (\<Sum>c<8. k * (?W ! c * at3 features n c f))"
      unfolding forward_value_sum by (intro sum.cong refl) simp
    then show "forward_value features' points n f = k * forward_value features points n f"
      unfolding forward_value_sum by (simp only: sum_distrib_left)
  next
    assume "\<forall>c<8. at3 features'' n c f = at3 features n c f + at3 features' n c f"
    then have "forward_value features'' points n f =
        (\<Sum>c<8. ?W ! c * at3 features n c f + ?W ! c * at3 features' n c f)"
      unfolding forward_value_sum by (intro sum.cong refl) (simp add: algebra_simps)
    then have "forward_value features'' points n f =
        forward_value features points n f + forward_value features' points n f"
      unfolding forward_value_sum by (simp only: sum.distrib)
    then show "output_at (trilinear_forward_cu features'' points uninit'') n f =
        Some (forward_value features points n f + forward_value features' points n f)"
      using output_at_forward [OF forward_inputs_in_bounds [OF inp''] n f] by simp
  }
qed

lemma all_below_3: "(\<forall>j<3. P j) \<longleftrightarrow> P 0 \<and> P 1 \<and> P (2 :: nat)"
proof -
  have "{..< 3 :: nat} = {0, 1, 2}" by auto
  moreover have "(\<forall>j<3. P j) \<longleftrightarrow> (\<forall>j \<in> {..< 3}. P j)" by auto
  ultimately show ?thesis by auto
qed

theorem forward_linear_witness:
  "\<exists>y. output_at (trilinear_forward_cu
          \<lparr>sizes = [1, 8, 1], strides = [8, 1, 1], elems = [2, 0, 0, 0, 4, 0, 0, 0]\<rparr>
          \<lparr>sizes = [1, 3], strides = [3, 1], elems = [0, -1, -1]\<rparr> (\<lambda>k. 0)) 0 0 = Some y \<and>
       output_at (trilinear_forward_cu
          \<lparr>sizes = [1, 8, 1], strides = [8, 1, 1], elems = [6, 0, 0, 0, 12, 0, 0, 0]\<rparr>
          \<lparr>sizes = [1, 3], strides = [3, 1], elems = [0, -1, -1]\<rparr> (\<lambda>k. 0)) 0 0 = Some (3 * y) \<and>
       output_at (trilinear_forward_cu
          \<lparr>sizes = [1, 8, 1], strides = [8, 1, 1], elems = [8, 0, 0, 0, 16, 0, 0, 0]\<rparr>
          \<lparr>sizes = [1, 3], strides = [3, 1], elems = [0, -1, -1]\<rparr> (\<lambda>k. 0)) 0 0 =
         Some (y + 3 * y)"
proof -
  let ?P = "\<lparr>sizes = [1, 3], strides = [3, 1], elems = [0, -1, -1]\<rparr>"
  let ?X = "\<lparr>sizes = [1, 8, 1], strides = [8, 1, 1], elems = [2, 0, 0, 0, 4, 0, 0, 0]\<rparr>"
  let ?X' = "\<lparr>sizes = [1, 8, 1], strides = [8, 1, 1], elems = [6, 0, 0, 0, 12, 0, 0, 0]\<rparr>"
  let ?X'' = "\<lparr>sizes = [1, 8, 1], strides = [8, 1, 1], elems = [8, 0, 0, 0, 16, 0, 0, 0]\<rparr>"
  have inp: "forward_inputs ?X ?P 1 1" "forward_inputs ?X' ?P 1 1" "forward_inputs ?X'' ?P 1 1"
    by (simp_all add: forward_inputs_def tensor_ok_def)
  have scaled: "\<forall>c<8. at3 ?X' 0 c 0 = 3 * at3 ?X 0 c 0"
    and added: "\<forall>c<8. at3 ?X'' 0 c 0 = at3 ?X 0 c 0 + at3 ?X' 0 c 0"
    by (simp_all add: all_below_8 at3_def offset3_def)
  from forward_linear [OF inp zero_less_one zero_less_one, of "\<lambda>k. 0" "\<lambda>k. 0" 3 "\<lambda>k. 0"]
    scaled added
  show ?thesis by blast
qed

subsection \<open>Independence\<close>

text \<open>
  Claim C9 (cross-cube independence). Two runs whose inputs agree on cube \<open>m\<close> (its eight
  corner features, its point and, for the backward call, its row of the upstream gradient)
  return the same output row \<open>m\<close> and the same gradient block \<open>m\<close>, whatever the other
  cubes hold in either run.
\<close>

theorem cross_cube_independence:
  assumes inp: "backward_inputs g features points N F"
      and inp': "backward_inputs g' features' points' N F"
      and m: "m < N"
      and feat: "\<forall>c<8. \<forall>f<F. at3 features m c f = at3 features' m c f"
      and pts: "\<forall>j<3. at2 points m j = at2 points' m j"
  shows "(\<forall>f<F. \<exists>y. output_at (trilinear_forward_cu features points uninit) m f = Some y \<and>
                  output_at (trilinear_forward_cu features' points' uninit') m f = Some y) \<and>
         ((\<forall>f<F. at2 g m f = at2 g' m f) \<longrightarrow>
          (\<forall>c<8. \<forall>f<F. \<exists>y.
              gradient_at (trilinear_backward_cu g features points uninit) m c f = Some y \<and>
              gradient_at (trilinear_backward_cu g' features' points' uninit') m c f = Some y))"
proof (intro conjI allI impI)
  note finp = forward_inputs_in_bounds [OF backward_inputs_forward [OF inp]]
    and finp' = forward_inputs_in_bounds [OF backward_inputs_forward [OF inp']]
    and binp = backward_inputs_in_bounds [OF inp] and binp' = backward_inputs_in_bounds [OF inp']
  from pts have p: "at2 points m 0 = at2 points' m 0" "at2 points m 1 = at2 points' m 1"
    "at2 points m 2 = at2 points' m 2"
    by simp_all
  {
    fix f assume f: "f < F"
    have "forward_value features points m f = forward_value features' points' m f"
      unfolding forward_value_sum p using feat f by (intro sum.cong refl) simp
    then show "\<exists>y. output_at (trilinear_forward_cu features points uninit) m f = Some y \<and>
                  output_at (trilinear_forward_cu features' points' uninit') m f = Some y"
      by (simp add: output_at_forward [OF finp m f] output_at_forward [OF finp' m f])
  }
  {
    fix c f :: nat
    assume g: "\<forall>f<F. at2 g m f = at2 g' m f" and c: "c < 8" and f: "f < F"
    have "backward_value points g m c f = backward_value points' g' m c f"
      using g f p by (simp add: backward_value_def)
    then show "\<exists>y. gradient_at (trilinear_backward_cu g features points uninit) m c f = Some y \<and>
              gradient_at (trilinear_backward_cu g' features' points' uninit') m c f = Some y"
      by (simp add: gradient_at_backward [OF binp m c f] gradient_at_backward [OF binp' m c f])
  }
qed

theorem cross_cube_independence_witness:
  "(\<exists>y. output_at (trilinear_forward_cu
          \<lparr>sizes = [2, 8, 1], strides = [8, 1, 1],
           elems = [0, 0, 0, 0, 1, 1, 1, 1, 5, 5, 5, 5, 5, 5, 5, 5]\<rparr>
          \<lparr>sizes = [2, 3], strides = [3, 1], elems = [0, -1, -1, 1, 1, 1]\<rparr> (\<lambda>k. 0)) 0 0 = Some y \<and>
        output_at (trilinear_forward_cu
          \<lparr>sizes = [2, 8, 1], strides = [8, 1, 1],
           elems = [0, 0, 0, 0, 1, 1, 1, 1, 9, 8, 7, 6, 5, 4, 3, 2]\<rparr>
          \<lparr>sizes = [2, 3], strides = [3, 1], elems = [0, -1, -1, 0, 0, 0]\<rparr> (\<lambda>k. 1)) 0 0 = Some y) \<and>
   (\<exists>y. gradient_at (trilinear_backward_cu
          \<lparr>sizes = [2, 1], strides = [1, 1], elems = [2, 3]\<rparr>
          \<lparr>sizes = [2, 8, 1], strides = [8, 1, 1],
           elems = [0, 0, 0, 0, 1, 1, 1, 1, 5, 5, 5, 5, 5, 5, 5, 5]\<rparr>
          \<lparr>sizes = [2, 3], strides = [3, 1], elems = [0, -1, -1, 1, 1, 1]\<rparr> (\<lambda>k. 0)) 0 4 0 = Some y \<and>
        gradient_at (trilinear_backward_cu
          \<lparr>sizes = [2, 1], strides = [1, 1], elems = [2, 7]\<rparr>
          \<lparr>sizes = [2, 8, 1], strides = [8, 1, 1],
           elems = [0, 0, 0, 0, 1, 1, 1, 1, 9, 8, 7, 6, 5, 4, 3, 2]\<rparr>
          \<lparr>sizes = [2, 3], strides = [3, 1], elems = [0, -1, -1, 0, 0, 0]\<rparr> (\<lambda>k. 1)) 0 4 0 = Some y)"
  using cross_cube_independence [of
      "\<lparr>sizes = [2, 1], strides = [1, 1], elems = [2, 3]\<rparr>"
      "\<lparr>sizes = [2, 8, 1], strides = [8, 1, 1],
           elems = [0, 0, 0, 0, 1, 1, 1, 1, 5, 5, 5, 5, 5, 5, 5, 5]\<rparr>"
      "\<lparr>sizes = [2, 3], strides = [3, 1], elems = [0, -1, -1, 1, 1, 1]\<rparr>" 2 1
      "\<lparr>sizes = [2, 1], strides = [1, 1], elems = [2, 7]\<rparr>"
      "\<lparr>sizes = [2, 8, 1], strides = [8, 1, 1],
           elems = [0, 0, 0, 0, 1, 1, 1, 1, 9, 8, 7, 6, 5, 4, 3, 2]\<rparr>"
      "\<lparr>sizes = [2, 3], strides = [3, 1], elems = [0, -1, -1, 0, 0, 0]\<rparr>" 0 "\<lambda>k. 0" "\<lambda>k. 1"]
  by (simp add: backward_inputs_def forward_inputs_def tensor_ok_def at2_def at3_def offset2_def
      offset3_def all_below_8 all_below_3)

text \<open>
  Claim C10. The backward call never reads a feature value: two Features tensors with the
  same sizes give the same result, whatever they hold (and whatever their strides and
  buffers are), for the same Points, UpstreamGradient and initial contents of the fresh
  gradient tensor.
\<close>

theorem backward_ignores_feature_values:
  assumes "sizes features = sizes features'"
  shows "trilinear_backward_cu g features points uninit = trilinear_backward_cu g features' points uninit"
proof -
  have "trilinear_backward_kernel features = trilinear_backward_kernel features'"
    by (intro ext) (simp add: trilinear_backward_kernel_def assms)
  moreover have "packed_accessor 3 features = Inr features \<and> packed_accessor 3 features' = Inr features'
      \<or> packed_accessor 3 features = Inl AccessorRank \<and> packed_accessor 3 features' = Inl AccessorRank"
    by (simp add: packed_accessor_def assms)
  ultimately show ?thesis
    by (auto simp: trilinear_backward_cu_def size_of_def assms Let_def split: sum.splits)
qed

theorem backward_ignores_feature_values_witness:
  "trilinear_backward_cu \<lparr>sizes = [1, 1], strides = [1, 1], elems = [2]\<rparr>
      \<lparr>sizes = [1, 8, 1], strides = [8, 1, 1], elems = [0, 0, 0, 0, 1, 1, 1, 1]\<rparr>
      \<lparr>sizes = [1, 3], strides = [3, 1], elems = [0, -1, -1]\<rparr> (\<lambda>k. 0) =
   trilinear_backward_cu \<lparr>sizes = [1, 1], strides = [1, 1], elems = [2]\<rparr>
      \<lparr>sizes = [1, 8, 1], strides = [0, 0, 0], elems = []\<rparr>
      \<lparr>sizes = [1, 3], strides = [3, 1], elems = [0, -1, -1]\<rparr> (\<lambda>k. 0)"
  using backward_ignores_feature_values [of
      "\<lparr>sizes = [1, 8, 1], strides = [8, 1, 1], elems = [0, 0, 0, 0, 1, 1, 1, 1]\<rparr>"
      "\<lparr>sizes = [1, 8, 1], strides = [0, 0, 0], elems = []\<rparr>"]
  by simp

subsection \<open>The launch configuration\<close>










subsection \<open>What the entry points check\<close>

lemma run_threads_fault:
  assumes "(b, t) \<in> set ts" "\<And>out. body b t out = None"
  shows "run_threads body ts out = None"
  using assms(1)
proof (induction ts arbitrary: out)
  case Nil
  then show ?case by simp
next
  case (Cons bt ts)
  obtain b' t' where bt: "bt = (b', t')" by (cases bt)
  show ?case
  proof (cases "body b' t' out")
    case None
    then show ?thesis by (simp add: bt)
  next
    case (Some out')
    with assms(2) have "(b', t') \<noteq> (b, t)" by auto
    with Cons.prems bt have "(b, t) \<in> set ts" by auto
    then show ?thesis by (simp add: bt Some Cons.IH)
  qed
qed

lemma rank_rejected_forward:
  assumes "length (sizes features) \<noteq> 3 \<or> length (sizes points) \<noteq> 2"
  shows "trilinear_forward_cu features points uninit \<in>
           {Inl IndexError, Inl NegativeDimension, Inl AccessorRank}"
  using assms
  by (auto simp: trilinear_forward_cu_def size_of_def packed_accessor_def torch_empty_def Let_def
      split: sum.splits if_splits)

lemma rank_rejected_backward:
  assumes "length (sizes features) \<noteq> 3 \<or> length (sizes points) \<noteq> 2 \<or> length (sizes g) \<noteq> 2"
  shows "trilinear_backward_cu g features points uninit \<in>
           {Inl IndexError, Inl NegativeDimension, Inl AccessorRank}"
  using assms
  by (auto simp: trilinear_backward_cu_def size_of_def packed_accessor_def torch_empty_def Let_def
      split: sum.splits if_splits)

text \<open>
  Claim C4, as stated, fails: neither entry point compares a size with 8, with 3 or with a
  size of another argument. Below, Features has 9 corners, Points has 2 rows and 4 columns
  and UpstreamGradient has 2 columns, for \<open>N = 1\<close> and \<open>F = 1\<close>; both calls are dispatched
  and return a tensor. With 4 corners instead, the forward call is dispatched as well, and
  its first thread reads \<^verbatim>\<open>features[0][4][0]\<close> outside the buffer.
\<close>

theorem shape_mismatch_accepted:
  "sizes \<lparr>sizes = [1, 9, 1], strides = [9, 1, 1], elems = [0, 0, 0, 0, 1, 1, 1, 1, 5]\<rparr> ! 1 \<noteq> 8 \<and>
   sizes \<lparr>sizes = [2, 4], strides = [4, 1], elems = [0, -1, -1, 7, 3, 3, 3, 3]\<rparr> \<noteq> [1, 3] \<and>
   sizes \<lparr>sizes = [1, 2], strides = [2, 1], elems = [2, 9]\<rparr> \<noteq> [1, 1] \<and>
   trilinear_forward_cu
     \<lparr>sizes = [1, 9, 1], strides = [9, 1, 1], elems = [0, 0, 0, 0, 1, 1, 1, 1, 5]\<rparr>
     \<lparr>sizes = [2, 4], strides = [4, 1], elems = [0, -1, -1, 7, 3, 3, 3, 3]\<rparr> (\<lambda>k. 0) =
     Inr \<lparr>sizes = [1, 1], strides = [1, 1], elems = [1 / 2]\<rparr> \<and>
   trilinear_backward_cu
     \<lparr>sizes = [1, 2], strides = [2, 1], elems = [2, 9]\<rparr>
     \<lparr>sizes = [1, 9, 1], strides = [9, 1, 1], elems = [0, 0, 0, 0, 1, 1, 1, 1, 5]\<rparr>
     \<lparr>sizes = [2, 4], strides = [4, 1], elems = [0, -1, -1, 7, 3, 3, 3, 3]\<rparr> (\<lambda>k. 0) =
     Inr \<lparr>sizes = [1, 8, 1], strides = [8, 1, 1], elems = [1, 0, 0, 0, 1, 0, 0, 0]\<rparr> \<and>
   trilinear_forward_cu
     \<lparr>sizes = [1, 4, 1], strides = [4, 1, 1], elems = [0, 0, 0, 0]\<rparr>
     \<lparr>sizes = [1, 3], strides = [3, 1], elems = [0, -1, -1]\<rparr> (\<lambda>k. 0) = Inl OutOfBounds"
proof -
  let ?X = "\<lparr>sizes = [1, 9, 1], strides = [9, 1, 1], elems = [0, 0, 0, 0, 1, 1, 1, 1, 5]\<rparr>"
  let ?P = "\<lparr>sizes = [2, 4], strides = [4, 1], elems = [0, -1, -1, 7, 3, 3, 3, 3]\<rparr>"
  let ?G = "\<lparr>sizes = [1, 2], strides = [2, 1], elems = [2, 9]\<rparr>"
  let ?X4 = "\<lparr>sizes = [1, 4, 1], strides = [4, 1, 1], elems = [0, 0, 0, 0]\<rparr>"
  let ?P3 = "\<lparr>sizes = [1, 3], strides = [3, 1], elems = [0, -1, -1]\<rparr>"
  have binp: "backward_in_bounds ?G ?X ?P 1 1"
    by (simp add: backward_in_bounds_def forward_in_bounds_def tensor_ok_def)
  note finp = backward_in_bounds_accessors(1) [OF binp]
  have fwd: "trilinear_forward_cu ?X ?P (\<lambda>k. 0) =
      Inr \<lparr>sizes = [1, 1], strides = [1, 1], elems = [1 / 2]\<rparr>"
    unfolding forward_cu_closed [OF finp]
    by (simp add: forward_value_def at2_def at3_def offset2_def offset3_def)
  have "[0 ..< 8] = [0, 1, 2, 3, 4, 5, 6, Suc 6]"
    by (simp add: upt_rec)
  then have bwd: "trilinear_backward_cu ?G ?X ?P (\<lambda>k. 0) =
      Inr \<lparr>sizes = [1, 8, 1], strides = [8, 1, 1], elems = [1, 0, 0, 0, 1, 0, 0, 0]\<rparr>"
    unfolding backward_cu_closed [OF binp]
    by (simp add: backward_value_def weights_def at2_def offset2_def)
  let ?z = "\<lparr>dim_x = 0, dim_y = 0, dim_z = 0\<rparr>"
  have "(?z, ?z) \<in> set (grid_threads (numBlocks (int 1) (int 1)) numThreadsPerBlock)"
    by (subst in_grid) simp_all
  moreover have "trilinear_forward_kernel ?X4 ?P3 numThreadsPerBlock ?z ?z out = None" for out
    by (simp add: trilinear_forward_kernel_def size_t_of_int_def int_of_uint32_def uint32_def
        read2_def read3_def load_def offset2_def offset3_def)
  ultimately have "run_threads (trilinear_forward_kernel ?X4 ?P3 numThreadsPerBlock)
      (grid_threads (numBlocks (int 1) (int 1)) numThreadsPerBlock) out = None" for out
    by (rule run_threads_fault)
  then have oob: "trilinear_forward_cu ?X4 ?P3 (\<lambda>k. 0) = Inl OutOfBounds"
    by (simp add: trilinear_forward_cu_def size_of_def int_of_int64_def torch_empty_def
        packed_accessor_def launch_def)
  from fwd bwd oob show ?thesis by simp
qed

text \<open>
  Claim C4, amended. A call is rejected before any dispatch, and returns no tensor, when
  Features is not 3-dimensional, Points is not 2-dimensional or (backward)
  UpstreamGradient is not 2-dimensional. No size is compared with 8, with 3 or with
  another: let Features be \<open>(N, C, F)\<close> with \<open>N\<close> and \<open>F\<close> below \<open>2^31\<close> (the range of the
  \<^verbatim>\<open>int\<close> the entry points keep them in), and let every buffer hold every element of
  its tensor's shape. Whenever Features has at least 8 corners, Points at least \<open>N\<close> rows
  and 3 columns and (backward) UpstreamGradient at least \<open>N\<close> rows and \<open>F\<close> columns, the
  call is dispatched and returns the completely written, row-major \<open>(N, F)\<close> or
  \<open>(N, 8, F)\<close> tensor computed from corners 0 to 7 and columns 0 to 2.
\<close>

theorem only_rank_is_checked:
  "(length (sizes features) \<noteq> 3 \<or> length (sizes points) \<noteq> 2 \<longrightarrow>
      trilinear_forward_cu features points uninit \<in>
        {Inl IndexError, Inl NegativeDimension, Inl AccessorRank}) \<and>
   (length (sizes features) \<noteq> 3 \<or> length (sizes points) \<noteq> 2 \<or> length (sizes g) \<noteq> 2 \<longrightarrow>
      trilinear_backward_cu g features points uninit \<in>
        {Inl IndexError, Inl NegativeDimension, Inl AccessorRank}) \<and>
   (forward_in_bounds features points N F \<longrightarrow>
      trilinear_forward_cu features points uninit =
        Inr \<lparr>sizes = [N, F], strides = [max F 1, 1],
             elems = map (\<lambda>k. forward_value features points (k div F) (k mod F)) [0 ..< N * F]\<rparr>) \<and>
   (backward_in_bounds g features points N F \<longrightarrow>
      trilinear_backward_cu g features points uninit =
        Inr \<lparr>sizes = [N, 8, F], strides = [8 * max F 1, max F 1, 1],
             elems = map (\<lambda>k. backward_value points g (k div (8 * F)) (k div F mod 8) (k mod F))
                       [0 ..< N * 8 * F]\<rparr>)"
  by (intro conjI impI rank_rejected_forward rank_rejected_backward forward_cu_closed
      backward_cu_closed)

theorem only_rank_is_checked_witness:
  "trilinear_forward_cu
     \<lparr>sizes = [8, 1], strides = [1, 1], elems = [0, 0, 0, 0, 1, 1, 1, 1]\<rparr>
     \<lparr>sizes = [1, 3], strides = [3, 1], elems = [0, -1, -1]\<rparr> (\<lambda>k. 0) \<in>
     {Inl IndexError, Inl NegativeDimension, Inl AccessorRank} \<and>
   trilinear_backward_cu
     \<lparr>sizes = [1], strides = [1], elems = [2]\<rparr>
     \<lparr>sizes = [1, 8, 1], strides = [8, 1, 1], elems = [0, 0, 0, 0, 1, 1, 1, 1]\<rparr>
     \<lparr>sizes = [1, 3], strides = [3, 1], elems = [0, -1, -1]\<rparr> (\<lambda>k. 0) \<in>
     {Inl IndexError, Inl NegativeDimension, Inl AccessorRank} \<and>
   trilinear_forward_cu
     \<lparr>sizes = [1, 9, 1], strides = [9, 1, 1], elems = [0, 0, 0, 0, 1, 1, 1, 1, 5]\<rparr>
     \<lparr>sizes = [2, 4], strides = [4, 1], elems = [0, -1, -1, 7, 3, 3, 3, 3]\<rparr> (\<lambda>k. 0) =
     Inr \<lparr>sizes = [1, 1], strides = [1, 1], elems = [1 / 2]\<rparr> \<and>
   trilinear_backward_cu
     \<lparr>sizes = [1, 2], strides = [2, 1], elems = [2, 9]\<rparr>
     \<lparr>sizes = [1, 9, 1], strides = [9, 1, 1], elems = [0, 0, 0, 0, 1, 1, 1, 1, 5]\<rparr>
     \<lparr>sizes = [2, 4], strides = [4, 1], elems = [0, -1, -1, 7, 3, 3, 3, 3]\<rparr> (\<lambda>k. 0) =
     Inr \<lparr>sizes = [1, 8, 1], strides = [8, 1, 1], elems = [1, 0, 0, 0, 1, 0, 0, 0]\<rparr>"
proof -
  let ?X = "\<lparr>sizes = [1, 9, 1], strides = [9, 1, 1], elems = [0, 0, 0, 0, 1, 1, 1, 1, 5]\<rparr>"
  let ?P = "\<lparr>sizes = [2, 4], strides = [4, 1], elems = [0, -1, -1, 7, 3, 3, 3, 3]\<rparr>"
  let ?G = "\<lparr>sizes = [1, 2], strides = [2, 1], elems = [2, 9]\<rparr>"
  let ?X2 = "\<lparr>sizes = [8, 1], strides = [1, 1], elems = [0, 0, 0, 0, 1, 1, 1, 1]\<rparr>"
  let ?X8 = "\<lparr>sizes = [1, 8, 1], strides = [8, 1, 1], elems = [0, 0, 0, 0, 1, 1, 1, 1]\<rparr>"
  let ?P3 = "\<lparr>sizes = [1, 3], strides = [3, 1], elems = [0, -1, -1]\<rparr>"
  let ?G1 = "\<lparr>sizes = [1], strides = [1], elems = [2]\<rparr>"
  have 1: "trilinear_forward_cu ?X2 ?P3 (\<lambda>k. 0) \<in>
      {Inl IndexError, Inl NegativeDimension, Inl AccessorRank}"
    using only_rank_is_checked [of ?X2 ?P3 "\<lambda>k. 0", THEN conjunct1] by simp
  have 2: "trilinear_backward_cu ?G1 ?X8 ?P3 (\<lambda>k. 0) \<in>
      {Inl IndexError, Inl NegativeDimension, Inl AccessorRank}"
    using only_rank_is_checked [of ?X8 ?P3 "\<lambda>k. 0" ?G1, THEN conjunct2, THEN conjunct1] by simp
  have binp: "backward_in_bounds ?G ?X ?P 1 1"
    by (simp add: backward_in_bounds_def forward_in_bounds_def tensor_ok_def)
  have finp: "forward_in_bounds ?X ?P 1 1"
    by (simp add: forward_in_bounds_def tensor_ok_def)
  have 3: "trilinear_forward_cu ?X ?P (\<lambda>k. 0) =
      Inr \<lparr>sizes = [1, 1], strides = [1, 1], elems = [1 / 2]\<rparr>"
    using only_rank_is_checked [of ?X ?P "\<lambda>k. 0" _ 1 1, THEN conjunct2, THEN conjunct2,
        THEN conjunct1] finp
    by (simp add: forward_value_def at2_def at3_def offset2_def offset3_def)
  have u: "[0 ..< 8] = [0, 1, 2, 3, 4, 5, 6, Suc 6]"
    by (simp add: upt_rec)
  have 4: "trilinear_backward_cu ?G ?X ?P (\<lambda>k. 0) =
      Inr \<lparr>sizes = [1, 8, 1], strides = [8, 1, 1], elems = [1, 0, 0, 0, 1, 0, 0, 0]\<rparr>"
    using only_rank_is_checked [of ?X ?P "\<lambda>k. 0" ?G 1 1, THEN conjunct2, THEN conjunct2,
        THEN conjunct2] binp u
    by (simp add: backward_value_def weights_def at2_def offset2_def)
  from 1 2 3 4 show ?thesis by (intro conjI)
qed

subsection \<open>The backward call is the gradient of the forward call\<close>

lemma forward_value_perturb:
  assumes vary: "\<forall>x. at3 (feat x) n c f = x"
      and fixed: "\<forall>x n' c' f'. n' < N \<and> c' < 8 \<and> f' < F \<and> (n', c', f') \<noteq> (n, c, f) \<longrightarrow>
                   at3 (feat x) n' c' f' = at3 (feat 0) n' c' f'"
      and c: "c < 8" and n': "n' < N" and f': "f' < F"
  shows "forward_value (feat x) points n' f' =
         forward_value (feat 0) points n' f' +
         (if n' = n \<and> f' = f
          then weights (at2 points n 0) (at2 points n 1) (at2 points n 2) ! c * x else 0)"
proof -
  let ?W = "weights (at2 points n' 0) (at2 points n' 1) (at2 points n' 2)"
  have el: "at3 (feat x) n' c' f' =
      at3 (feat 0) n' c' f' + (if n' = n \<and> f' = f \<and> c' = c then x else 0)" if "c' < 8" for c'
  proof (cases "(n', c', f') = (n, c, f)")
    case True
    then show ?thesis using vary by simp
  next
    case False
    with fixed n' f' that have "at3 (feat x) n' c' f' = at3 (feat 0) n' c' f'" by blast
    with False show ?thesis by auto
  qed
  have "forward_value (feat x) points n' f' =
      (\<Sum>c'<8. ?W ! c' * at3 (feat 0) n' c' f' +
                (if c' = c then (if n' = n \<and> f' = f then ?W ! c * x else 0) else 0))"
    unfolding forward_value_sum by (intro sum.cong refl) (simp add: el algebra_simps)
  also have "\<dots> = forward_value (feat 0) points n' f' +
      (\<Sum>c'<8. if c' = c then (if n' = n \<and> f' = f then ?W ! c * x else 0) else 0)"
    unfolding forward_value_sum by (simp only: sum.distrib)
  also have "(\<Sum>c'<8. if c' = c then (if n' = n \<and> f' = f then ?W ! c * x else 0) else 0) =
      (if n' = n \<and> f' = f then ?W ! c * x else 0)"
    using c by (simp add: sum.delta)
  finally show ?thesis by auto
qed

lemma loss_affine:
  assumes inp: "\<forall>x. backward_inputs g (feat x) points N F"
      and vary: "\<forall>x. at3 (feat x) n c f = x"
      and fixed: "\<forall>x n' c' f'. n' < N \<and> c' < 8 \<and> f' < F \<and> (n', c', f') \<noteq> (n, c, f) \<longrightarrow>
                   at3 (feat x) n' c' f' = at3 (feat 0) n' c' f'"
      and n: "n < N" and c: "c < 8" and f: "f < F"
  shows "(\<Sum>n'<N. \<Sum>f'<F. at2 g n' f' *
            the (output_at (trilinear_forward_cu (feat x) points uninit) n' f')) =
         (\<Sum>n'<N. \<Sum>f'<F. at2 g n' f' * forward_value (feat 0) points n' f') +
         backward_value points g n c f * x"
proof -
  let ?W = "weights (at2 points n 0) (at2 points n 1) (at2 points n 2)"
  have finp: "forward_in_bounds (feat x) points N F"
    using inp by (intro forward_inputs_in_bounds backward_inputs_forward) blast
  have "(\<Sum>n'<N. \<Sum>f'<F. at2 g n' f' *
            the (output_at (trilinear_forward_cu (feat x) points uninit) n' f')) =
        (\<Sum>n'<N. \<Sum>f'<F. at2 g n' f' * forward_value (feat 0) points n' f' +
            (if n' = n then (if f' = f then at2 g n f * (?W ! c * x) else 0) else 0))"
  proof (intro sum.cong refl)
    fix n' f' assume "n' \<in> {..<N}" "f' \<in> {..<F}"
    then have n': "n' < N" and f': "f' < F" by simp_all
    have "the (output_at (trilinear_forward_cu (feat x) points uninit) n' f') =
        forward_value (feat x) points n' f'"
      by (simp add: output_at_forward [OF finp n' f'])
    also note forward_value_perturb [OF vary fixed c n' f', of x points]
    finally show "at2 g n' f' * the (output_at (trilinear_forward_cu (feat x) points uninit) n' f') =
        at2 g n' f' * forward_value (feat 0) points n' f' +
        (if n' = n then (if f' = f then at2 g n f * (?W ! c * x) else 0) else 0)"
      by (auto simp: algebra_simps)
  qed
  also have "\<dots> = (\<Sum>n'<N. (\<Sum>f'<F. at2 g n' f' * forward_value (feat 0) points n' f') +
            (if n' = n then (\<Sum>f'<F. if f' = f then at2 g n f * (?W ! c * x) else 0) else 0))"
    by (intro sum.cong refl) (simp add: sum.distrib)
  also have "\<dots> = (\<Sum>n'<N. \<Sum>f'<F. at2 g n' f' * forward_value (feat 0) points n' f') +
            (\<Sum>n'<N. if n' = n then (\<Sum>f'<F. if f' = f then at2 g n f * (?W ! c * x) else 0) else 0)"
    by (simp only: sum.distrib)
  also have "(\<Sum>n'<N. if n' = n then (\<Sum>f'<F. if f' = f then at2 g n f * (?W ! c * x) else 0) else 0) =
      at2 g n f * (?W ! c * x)"
    using n f by (simp add: sum.delta)
  finally show ?thesis by (simp add: backward_value_def algebra_simps)
qed

lemma euler_identity:
  assumes inp: "backward_inputs g features points N F"
  shows "(\<Sum>n<N. \<Sum>f<F. at2 g n f *
            the (output_at (trilinear_forward_cu features points uninit) n f)) =
         (\<Sum>n<N. \<Sum>c<8. \<Sum>f<F.
            the (gradient_at (trilinear_backward_cu g features points uninit') n c f) *
            at3 features n c f)"
proof -
  note binp = backward_inputs_in_bounds [OF inp]
  note finp = forward_inputs_in_bounds [OF backward_inputs_forward [OF inp]]
  have "(\<Sum>n<N. \<Sum>f<F. at2 g n f *
            the (output_at (trilinear_forward_cu features points uninit) n f)) =
        (\<Sum>n<N. \<Sum>f<F. \<Sum>c<8. backward_value points g n c f * at3 features n c f)"
    by (intro sum.cong refl)
       (simp add: output_at_forward [OF finp] forward_value_sum backward_value_def
          sum_distrib_left algebra_simps)
  also have "\<dots> = (\<Sum>n<N. \<Sum>c<8. \<Sum>f<F. backward_value points g n c f * at3 features n c f)"
    by (rule sum.cong [OF refl]) (rule sum.swap)
  also have "\<dots> = (\<Sum>n<N. \<Sum>c<8. \<Sum>f<F.
            the (gradient_at (trilinear_backward_cu g features points uninit') n c f) *
            at3 features n c f)"
    by (intro sum.cong refl) (simp add: gradient_at_backward [OF binp])
  finally show ?thesis .
qed

text \<open>
  Claim C3. Let the Features tensor vary in its element \<open>[n][c][f]\<close> only: \<open>feat x\<close> holds
  \<open>x\<close> there and what \<open>feat 0\<close> holds everywhere else. Then the derivative at \<open>x0\<close> of
  \<open>x \<mapsto> sum over (n', f') of g[n',f'] * forward(feat x, Points)[n',f']\<close> is
  \<open>backward(g, feat x0, Points)[n][c][f]\<close>; and the sum over \<open>(n', f')\<close> of
  \<open>g[n',f'] * Output[n',f']\<close> equals the sum over \<open>(n', c', f')\<close> of
  \<open>FeatureGradient[n',c',f'] * Features[n',c',f']\<close>.
\<close>

theorem backward_is_gradient:
  assumes inp: "\<forall>x. backward_inputs g (feat x) points N F"
      and vary: "\<forall>x. at3 (feat x) n c f = x"
      and fixed: "\<forall>x n' c' f'. n' < N \<and> c' < 8 \<and> f' < F \<and> (n', c', f') \<noteq> (n, c, f) \<longrightarrow>
                   at3 (feat x) n' c' f' = at3 (feat 0) n' c' f'"
      and n: "n < N" and c: "c < 8" and f: "f < F"
  shows "((\<lambda>x. \<Sum>n'<N. \<Sum>f'<F. at2 g n' f' *
              the (output_at (trilinear_forward_cu (feat x) points uninit) n' f'))
          has_real_derivative
            the (gradient_at (trilinear_backward_cu g (feat x0) points uninit') n c f)) (at x0) \<and>
         (\<Sum>n'<N. \<Sum>f'<F. at2 g n' f' *
            the (output_at (trilinear_forward_cu (feat x0) points uninit) n' f')) =
         (\<Sum>n'<N. \<Sum>c'<8. \<Sum>f'<F.
            the (gradient_at (trilinear_backward_cu g (feat x0) points uninit') n' c' f') *
            at3 (feat x0) n' c' f')"
proof
  let ?A = "\<Sum>n'<N. \<Sum>f'<F. at2 g n' f' * forward_value (feat 0) points n' f'"
  let ?B = "backward_value points g n c f"
  from inp have binp: "backward_in_bounds g (feat x0) points N F"
    by (intro backward_inputs_in_bounds) blast
  have "((\<lambda>x. ?A + ?B * x) has_real_derivative ?B) (at x0)"
    by (auto intro!: derivative_eq_intros)
  then show "((\<lambda>x. \<Sum>n'<N. \<Sum>f'<F. at2 g n' f' *
              the (output_at (trilinear_forward_cu (feat x) points uninit) n' f'))
          has_real_derivative
            the (gradient_at (trilinear_backward_cu g (feat x0) points uninit') n c f)) (at x0)"
    by (simp only: loss_affine [OF inp vary fixed n c f] gradient_at_backward [OF binp n c f]
        option.sel)
  from inp have "backward_inputs g (feat x0) points N F" by blast
  then show "(\<Sum>n'<N. \<Sum>f'<F. at2 g n' f' *
            the (output_at (trilinear_forward_cu (feat x0) points uninit) n' f')) =
         (\<Sum>n'<N. \<Sum>c'<8. \<Sum>f'<F.
            the (gradient_at (trilinear_backward_cu g (feat x0) points uninit') n' c' f') *
            at3 (feat x0) n' c' f')"
    by (rule euler_identity)
qed

theorem backward_is_gradient_witness:
  "((\<lambda>x. \<Sum>n'<1. \<Sum>f'<1. at2 \<lparr>sizes = [1, 1], strides = [1, 1], elems = [2]\<rparr> n' f' *
        the (output_at (trilinear_forward_cu
          \<lparr>sizes = [1, 8, 1], strides = [8, 1, 1], elems = [x, 0, 0, 0, 1, 1, 1, 1]\<rparr>
          \<lparr>sizes = [1, 3], strides = [3, 1], elems = [0, -1, -1]\<rparr> (\<lambda>k. 0)) n' f'))
     has_real_derivative 1) (at 5)"
proof -
  let ?G = "\<lparr>sizes = [1, 1], strides = [1, 1], elems = [2]\<rparr>"
  let ?P = "\<lparr>sizes = [1, 3], strides = [3, 1], elems = [0, -1, -1]\<rparr>"
  let ?feat = "\<lambda>x. \<lparr>sizes = [1, 8, 1], strides = [8, 1, 1], elems = [x, 0, 0, 0, 1, 1, 1, 1]\<rparr>"
  have inp: "\<forall>x. backward_inputs ?G (?feat x) ?P 1 1"
    by (simp add: backward_inputs_def forward_inputs_def tensor_ok_def)
  have vary: "\<forall>x. at3 (?feat x) 0 0 0 = x"
    by (simp add: at3_def offset3_def)
  have fixed: "\<forall>x n' c' f'. n' < 1 \<and> c' < 8 \<and> f' < 1 \<and> (n', c', f') \<noteq> (0, 0, 0) \<longrightarrow>
      at3 (?feat x) n' c' f' = at3 (?feat 0) n' c' f'"
    by (simp add: at3_def offset3_def nth_Cons')
  have grad: "the (gradient_at (trilinear_backward_cu ?G (?feat 5) ?P (\<lambda>k. 0)) 0 0 0) = 1"
    using gradient_at_backward [of ?G "?feat 5" ?P 1 1 0 0 0 "\<lambda>k. 0"] inp
    by (simp add: backward_inputs_in_bounds backward_value_def weights_def at2_def offset2_def
        Let_def)
  from backward_is_gradient [OF inp vary fixed, where uninit = "\<lambda>k. 0" and uninit' = "\<lambda>k. 0"
      and ?x0.0 = 5]
  show ?thesis by (simp only: grad)
qed

subsection \<open>Sizes beyond the range of \<^verbatim>\<open>int\<close>\<close>







end
